theory Spec2Isabelle
  imports Complex_Main
begin

section \<open>Errors\<close>

text \<open>
  The Python exceptions that can leave one of the modelled functions.  Exceptions that the
  source catches itself (\<^verbatim>\<open>except Exception as e\<close>) never leave it; of those only the
  message text \<^verbatim>\<open>str(e)\<close> is kept.
\<close>

datatype error = ValueError | IndexError | OverflowError | TypeError

section \<open>Geocoder with session cache\<close>

text \<open>
  \<^verbatim>\<open>st.session_state["geocode_cache"]\<close> is a dict from the address string to either a
  coordinate pair \<^verbatim>\<open>(lat, lng)\<close> or \<^verbatim>\<open>None\<close> (an address that was looked up without
  result).  As a map: \<open>cache a = None\<close> is "key absent", \<open>cache a = Some None\<close> is the stored
  \<^verbatim>\<open>None\<close>, \<open>cache a = Some (Some (lat, lng))\<close> a stored pair.  Coordinates are only stored
  and handed back, so their type \<open>'c\<close> is left open.

  What happens inside the \<^verbatim>\<open>try\<close> block is the business of the geocoding service: either
  something raises (\<open>GeoRaise\<close> with the text of the exception), or a list of results
  arrives, of which the source reads the location of the first.
\<close>

datatype 'c geo_response = GeoRaise string | GeoResults "('c \<times> 'c) list"

text \<open>
  The service is a function of the outside world \<open>'w\<close>, the address and the key; it returns
  the response and the world after the call.
\<close>

type_synonym ('w, 'c) geocode_api = "'w \<Rightarrow> string \<Rightarrow> string \<Rightarrow> 'c geo_response \<times> 'w"

record ('w, 'c) session =
  geocode_cache :: "string \<rightharpoonup> ('c \<times> 'c) option"
  world :: 'w
  geo_calls :: "(string \<times> string) list"
  warnings :: "(string \<times> string) list"

text \<open>
  \<open>geo_calls\<close> lists the external calls issued so far (address and key), \<open>warnings\<close> the
  \<^verbatim>\<open>st.warning\<close> messages as pairs of address and exception text.
\<close>

definition call_geocoder ::
  "bool \<Rightarrow> ('w, 'c) geocode_api \<Rightarrow> ('w, 'c) geocode_api \<Rightarrow> string \<Rightarrow> string \<Rightarrow>
   ('w, 'c) session \<Rightarrow> 'c geo_response \<times> ('w, 'c) session" where
  "call_geocoder GMAPS_AVAILABLE client_geocode requests_get address key s =
     (case (if GMAPS_AVAILABLE then client_geocode else requests_get) (world s) address key of
        (resp, w') \<Rightarrow> (resp, s\<lparr>world := w', geo_calls := geo_calls s @ [(address, key)]\<rparr>))"

definition cache_store ::
  "string \<Rightarrow> ('c \<times> 'c) option \<Rightarrow> ('w, 'c) session \<Rightarrow> ('w, 'c) session" where
  "cache_store address v s = s\<lparr>geocode_cache := (geocode_cache s)(address \<mapsto> v)\<rparr>"

definition google_geocode ::
  "bool \<Rightarrow> ('w, 'c) geocode_api \<Rightarrow> ('w, 'c) geocode_api \<Rightarrow> string \<Rightarrow> string \<Rightarrow>
   ('w, 'c) session \<Rightarrow> ('c \<times> 'c) option \<times> ('w, 'c) session" where
  "google_geocode GMAPS_AVAILABLE client_geocode requests_get address key s =
     (if address = [] then (None, s)
      else case geocode_cache s address of
        Some v \<Rightarrow> (v, s)
      | None \<Rightarrow>
         (case call_geocoder GMAPS_AVAILABLE client_geocode requests_get address key s of
            (GeoResults (loc # rest), s1) \<Rightarrow> (Some loc, cache_store address (Some loc) s1)
          | (GeoResults [], s1) \<Rightarrow> (None, cache_store address None s1)
          | (GeoRaise e, s1) \<Rightarrow>
              (None, cache_store address None (s1\<lparr>warnings := warnings s1 @ [(address, e)]\<rparr>))))"

section \<open>Batch distance client\<close>

subsection \<open>Chunking\<close>

text \<open>
  \<^verbatim>\<open>for i in range(0, len(lst), size): yield lst[i : i + size]\<close>.  The slice
  \<^verbatim>\<open>lst[i : i + size]\<close> is \<open>take size (drop i lst)\<close>.  \<^verbatim>\<open>range\<close> raises
  \<^verbatim>\<open>ValueError\<close> for a step of zero.
\<close>

function chunks_from :: "'a list \<Rightarrow> nat \<Rightarrow> nat \<Rightarrow> 'a list list" where
  "chunks_from lst chunk_size i =
     (if 0 < chunk_size \<and> i < length lst
      then take chunk_size (drop i lst) # chunks_from lst chunk_size (i + chunk_size)
      else [])"
  by pat_completeness auto
termination
  by (relation "measure (\<lambda>(lst, chunk_size, i). length lst - i)") auto

definition chunk_list :: "'a list \<Rightarrow> nat \<Rightarrow> error + 'a list list" where
  "chunk_list lst chunk_size = (if chunk_size = 0 then Inl ValueError else Inr (chunks_from lst chunk_size 0))"

subsection \<open>Requests and responses\<close>

text \<open>\<^verbatim>\<open>sep.join(xs)\<close> on a list of strings.\<close>

fun join :: "string \<Rightarrow> string list \<Rightarrow> string" where
  "join sep [] = []"
| "join sep [x] = x"
| "join sep (x # y # ys) = x @ sep @ join sep (y # ys)"

text \<open>The \<^verbatim>\<open>params\<close> dict of one request.\<close>

type_synonym params = "string \<rightharpoonup> string"

definition request_params ::
  "string \<Rightarrow> string \<Rightarrow> string \<Rightarrow> bool \<Rightarrow> string list \<Rightarrow> string list \<Rightarrow> params" where
  "request_params key mode units use_traffic o_chunk d_chunk =
     (let params = [''key'' \<mapsto> key,
                    ''mode'' \<mapsto> mode,
                    ''units'' \<mapsto> units,
                    ''origins'' \<mapsto> join ''|'' o_chunk,
                    ''destinations'' \<mapsto> join ''|'' d_chunk]
      in if use_traffic \<and> mode = ''driving''
         then params(''departure_time'' \<mapsto> ''now'')
         else params)"

text \<open>
  One element of the response: its \<^verbatim>\<open>status\<close>, and the integers under
  \<^verbatim>\<open>["distance"]["value"]\<close> and \<^verbatim>\<open>["duration"]["value"]\<close>, \<open>None\<close> where the key is
  missing (reading it raises \<^verbatim>\<open>KeyError\<close>).
\<close>

record elem =
  elem_status :: string
  elem_distance :: "int option"
  elem_duration :: "int option"

text \<open>
  The answer to one request: an exception out of \<^verbatim>\<open>requests.get\<close>,
  \<^verbatim>\<open>raise_for_status\<close> or \<^verbatim>\<open>r.json()\<close>, with its text, or the rows of the decoded body,
  each row the list of its elements.
\<close>

datatype dm_response = RequestRaise string | Rows "elem list list"

type_synonym 'w distance_api = "'w \<Rightarrow> params \<Rightarrow> dm_response \<times> 'w"

text \<open>The value the result dict holds for a pair of tokens.\<close>

record pair_result =
  distance_m :: "int option"
  duration_s :: "int option"
  status :: string

type_synonym results = "(string \<times> string) \<rightharpoonup> pair_result"

subsection \<open>Recording one response\<close>

text \<open>What the source stores for an element that can be read.\<close>

definition elem_result :: "elem \<Rightarrow> pair_result" where
  "elem_result e =
     (if elem_status e = ''OK''
      then \<lparr>distance_m = elem_distance e, duration_s = elem_duration e, status = elem_status e\<rparr>
      else \<lparr>distance_m = None, duration_s = None, status = elem_status e\<rparr>)"

text \<open>
  The body of the inner loop.  \<open>Inl\<close> carries the text of the exception raised:
  \<^verbatim>\<open>IndexError\<close> from \<^verbatim>\<open>o_chunk[i]\<close> or \<^verbatim>\<open>d_chunk[j]\<close> when the response has more rows or
  elements than the chunk has tokens, \<^verbatim>\<open>KeyError\<close> when an element with status
  \<^verbatim>\<open>"OK"\<close> lacks its distance or duration.
\<close>

definition record_elem ::
  "string list \<Rightarrow> string list \<Rightarrow> nat \<Rightarrow> nat \<Rightarrow> elem \<Rightarrow> results \<Rightarrow> string + results" where
  "record_elem o_chunk d_chunk i j e res =
     (if \<not> i < length o_chunk then Inl ''list index out of range''
      else if \<not> j < length d_chunk then Inl ''list index out of range''
      else if elem_status e = ''OK'' then
        (if elem_distance e = None then Inl (CHR 0x27 # ''distance'' @ [CHR 0x27])
         else if elem_duration e = None then Inl (CHR 0x27 # ''duration'' @ [CHR 0x27])
         else Inr (res((o_chunk ! i, d_chunk ! j) \<mapsto> elem_result e)))
      else Inr (res((o_chunk ! i, d_chunk ! j) \<mapsto> elem_result e)))"

text \<open>
  The two \<^verbatim>\<open>enumerate\<close> loops.  They return the text of the exception that stopped them,
  if any, and the result dict as it is at that moment.
\<close>

fun record_row ::
  "string list \<Rightarrow> string list \<Rightarrow> nat \<Rightarrow> nat \<Rightarrow> elem list \<Rightarrow> results \<Rightarrow> string option \<times> results"
  where
  "record_row o_chunk d_chunk i j [] res = (None, res)"
| "record_row o_chunk d_chunk i j (e # es) res =
     (case record_elem o_chunk d_chunk i j e res of
        Inl msg \<Rightarrow> (Some msg, res)
      | Inr res' \<Rightarrow> record_row o_chunk d_chunk i (Suc j) es res')"

fun record_rows ::
  "string list \<Rightarrow> string list \<Rightarrow> nat \<Rightarrow> elem list list \<Rightarrow> results \<Rightarrow> string option \<times> results"
  where
  "record_rows o_chunk d_chunk i [] res = (None, res)"
| "record_rows o_chunk d_chunk i (row # rows) res =
     (case record_row o_chunk d_chunk i 0 row res of
        (Some msg, res') \<Rightarrow> (Some msg, res')
      | (None, res') \<Rightarrow> record_rows o_chunk d_chunk (Suc i) rows res')"

text \<open>The \<^verbatim>\<open>except\<close> branch: every pair of the two chunks gets the error entry.\<close>

definition error_result :: "string \<Rightarrow> pair_result" where
  "error_result msg = \<lparr>distance_m = None, duration_s = None, status = ''ERROR: '' @ msg\<rparr>"

definition mark_failed :: "string list \<Rightarrow> string list \<Rightarrow> string \<Rightarrow> results \<Rightarrow> results" where
  "mark_failed o_chunk d_chunk msg res =
     fold (\<lambda>origin. fold (\<lambda>dest r. r((origin, dest) \<mapsto> error_result msg)) d_chunk) o_chunk res"

text \<open>\<^verbatim>\<open>time.sleep\<close> raises \<^verbatim>\<open>ValueError\<close> for a negative length.\<close>

definition sleep :: "rat \<Rightarrow> error + unit" where
  "sleep secs = (if secs < 0 then Inl ValueError else Inr ())"

subsection \<open>The batch loop\<close>

text \<open>
  The state of a run: the result dict, the outside world, and the log of the requests
  sent so far, each with the answer it got.
\<close>

record 'w batch_state =
  results :: results
  dm_world :: 'w
  exchanges :: "(params \<times> dm_response) list"

definition on_exception ::
  "rat \<Rightarrow> string list \<Rightarrow> string list \<Rightarrow> string \<Rightarrow> 'w batch_state \<Rightarrow> error + 'w batch_state" where
  "on_exception rate_limit_delay o_chunk d_chunk msg st =
     (let st' = st\<lparr>results := mark_failed o_chunk d_chunk msg (results st)\<rparr>
      in case sleep rate_limit_delay of Inl err \<Rightarrow> Inl err | Inr u \<Rightarrow> Inr st')"

text \<open>
  The body of the two chunk loops: build the parameters, send the request, record the
  rows, sleep; on any exception in between mark the whole chunk pair and sleep.  The
  \<^verbatim>\<open>time.sleep\<close> of the \<^verbatim>\<open>try\<close> block is itself covered by the handler.
\<close>

definition chunk_pair_step ::
  "'w distance_api \<Rightarrow> string \<Rightarrow> string \<Rightarrow> string \<Rightarrow> bool \<Rightarrow> rat \<Rightarrow>
   string list \<Rightarrow> string list \<Rightarrow> 'w batch_state \<Rightarrow> error + 'w batch_state" where
  "chunk_pair_step api key mode units use_traffic rate_limit_delay o_chunk d_chunk st =
     (let params = request_params key mode units use_traffic o_chunk d_chunk in
      case api (dm_world st) params of (resp, w') \<Rightarrow>
        (let st1 = st\<lparr>dm_world := w', exchanges := exchanges st @ [(params, resp)]\<rparr> in
         case resp of
           RequestRaise msg \<Rightarrow> on_exception rate_limit_delay o_chunk d_chunk msg st1
         | Rows rows \<Rightarrow>
            (case record_rows o_chunk d_chunk 0 rows (results st1) of
               (Some msg, res') \<Rightarrow>
                 on_exception rate_limit_delay o_chunk d_chunk msg (st1\<lparr>results := res'\<rparr>)
             | (None, res') \<Rightarrow>
                 (case sleep rate_limit_delay of
                    Inl err \<Rightarrow>
                      on_exception rate_limit_delay o_chunk d_chunk
                        ''sleep length must be non-negative'' (st1\<lparr>results := res'\<rparr>)
                  | Inr u \<Rightarrow> Inr (st1\<lparr>results := res'\<rparr>)))))"

text \<open>A \<^verbatim>\<open>for\<close> loop whose body may raise: the first exception ends it.\<close>

fun for_each :: "('a \<Rightarrow> 's \<Rightarrow> error + 's) \<Rightarrow> 'a list \<Rightarrow> 's \<Rightarrow> error + 's" where
  "for_each body [] s = Inr s"
| "for_each body (x # xs) s =
     (case body x s of Inl err \<Rightarrow> Inl err | Inr s' \<Rightarrow> for_each body xs s')"

definition max_origins :: nat where "max_origins = 25"

definition max_destinations :: nat where "max_destinations = 25"

definition distance_matrix_batch ::
  "'w distance_api \<Rightarrow> string list \<Rightarrow> string list \<Rightarrow> string \<Rightarrow> string \<Rightarrow> string \<Rightarrow> bool \<Rightarrow> rat \<Rightarrow>
   'w \<Rightarrow> error + 'w batch_state" where
  "distance_matrix_batch api origins destinations key mode units use_traffic rate_limit_delay w =
     (case chunk_list origins max_origins of
        Inl err \<Rightarrow> Inl err
      | Inr o_chunks \<Rightarrow>
          for_each
            (\<lambda>o_chunk st.
               case chunk_list destinations max_destinations of
                 Inl err \<Rightarrow> Inl err
               | Inr d_chunks \<Rightarrow>
                   for_each
                     (chunk_pair_step api key mode units use_traffic rate_limit_delay o_chunk)
                     d_chunks st)
            o_chunks
            \<lparr>results = Map.empty, dm_world = w, exchanges = []\<rparr>)"

text \<open>
  The two nested loops run over the pairs of chunks in the order of their product; the
  loop body on a pair:
\<close>

definition pair_step ::
  "'w distance_api \<Rightarrow> string \<Rightarrow> string \<Rightarrow> string \<Rightarrow> bool \<Rightarrow> rat \<Rightarrow>
   string list \<times> string list \<Rightarrow> 'w batch_state \<Rightarrow> error + 'w batch_state" where
  "pair_step api key mode units tr d p st =
     chunk_pair_step api key mode units tr d (fst p) (snd p) st"

text \<open>What one pass of the loop body does to the result dict, given the answer it got.\<close>

definition step_results :: "string list \<Rightarrow> string list \<Rightarrow> dm_response \<Rightarrow> results \<Rightarrow> results" where
  "step_results o_chunk d_chunk resp res =
     (case resp of
        RequestRaise msg \<Rightarrow> mark_failed o_chunk d_chunk msg res
      | Rows rows \<Rightarrow>
          (case record_rows o_chunk d_chunk 0 rows res of
             (Some msg, res') \<Rightarrow> mark_failed o_chunk d_chunk msg res'
           | (None, res') \<Rightarrow> res'))"

text \<open>
  A response that the recording loops read without an exception: no more rows than
  origins in the chunk, no more elements in a row than destinations, and distance and
  duration present in every element with the status \<^verbatim>\<open>OK\<close>.
\<close>

definition readable_elem :: "elem \<Rightarrow> bool" where
  "readable_elem e =
     (elem_status e = ''OK'' \<longrightarrow> elem_distance e \<noteq> None \<and> elem_duration e \<noteq> None)"

definition readable :: "string list \<Rightarrow> string list \<Rightarrow> elem list list \<Rightarrow> bool" where
  "readable o_chunk d_chunk rows =
     (length rows \<le> length o_chunk
      \<and> list_all (\<lambda>row. length row \<le> length d_chunk \<and> list_all readable_elem row) rows)"

text \<open>
  For the proofs: what the result dict holds once the answer to a chunk pair has been
  recorded, and the token pairs of a chunk pair.
\<close>

definition recorded :: "string list \<Rightarrow> string list \<Rightarrow> dm_response \<Rightarrow> results \<Rightarrow> bool" where
  "recorded o_chunk d_chunk resp R =
     (case resp of
        RequestRaise msg \<Rightarrow>
          (\<forall>origin \<in> set o_chunk. \<forall>dest \<in> set d_chunk. R (origin, dest) = Some (error_result msg))
      | Rows rows \<Rightarrow>
          (readable o_chunk d_chunk rows \<longrightarrow>
             (\<forall>i < length rows. \<forall>j < length (rows ! i).
                R (o_chunk ! i, d_chunk ! j) = Some (elem_result (rows ! i ! j)))))"

definition keys_of :: "string list \<times> string list \<Rightarrow> (string \<times> string) set" where
  "keys_of p = set (fst p) \<times> set (snd p)"

section \<open>Address builder\<close>

text \<open>
  A data frame has \<^verbatim>\<open>len(df)\<close> rows and named columns of cells.  A cell may hold a
  missing value (\<^verbatim>\<open>NaN\<close>), as the cells do that are blank in the sheet.  What
  \<^verbatim>\<open>df[name].astype(str).str.strip()\<close> makes of a cell is the parameter \<open>cell_text\<close>:
  \<open>Some t\<close> is the stripped text \<open>t\<close>, \<open>None\<close> is a missing value that is still missing
  afterwards.  (A pandas that keeps missing values in \<^verbatim>\<open>astype(str)\<close> gives \<open>None\<close> for a
  blank cell; one that turns them into text gives \<open>Some ''nan''\<close>.)  The column map is the
  dict \<^verbatim>\<open>col_map\<close>; a key that is missing and a key that holds \<^verbatim>\<open>None\<close> both read as
  \<open>None\<close> through \<^verbatim>\<open>col_map.get\<close>.
\<close>

record 'c dataframe =
  nrows :: nat
  columns :: "string \<rightharpoonup> 'c list"

text \<open>
  \<^verbatim>\<open>df[name].astype(str).str.strip() if name and name in df.columns else
  pd.Series([""] * len(df))\<close>
\<close>

definition col_or_empty ::
  "('c \<Rightarrow> string option) \<Rightarrow> 'c dataframe \<Rightarrow> string option \<Rightarrow> string option list" where
  "col_or_empty cell_text df name =
     (case name of
        None \<Rightarrow> replicate (nrows df) (Some [])
      | Some n \<Rightarrow>
          (if n \<noteq> [] then
             (case columns df n of
                Some cells \<Rightarrow> map cell_text cells
              | None \<Rightarrow> replicate (nrows df) (Some []))
           else replicate (nrows df) (Some [])))"

text \<open>\<^verbatim>\<open>.fillna("")\<close>: the missing values of a series become the empty text.\<close>

definition fillna :: "string \<Rightarrow> string option list \<Rightarrow> string option list" where
  "fillna v s = map (\<lambda>x. case x of None \<Rightarrow> Some v | Some t \<Rightarrow> Some t) s"

text \<open>\<^verbatim>\<open>s.iat[i] if i < len(s) else ""\<close>\<close>

definition iat_or_empty :: "string option list \<Rightarrow> nat \<Rightarrow> string option" where
  "iat_or_empty s i = (if i < length s then s ! i else Some [])"

text \<open>
  The truth value an \<^verbatim>\<open>if\<close> takes of a cell value: a text is true unless it is empty,
  and \<^verbatim>\<open>NaN\<close> is true.
\<close>

definition truthy :: "string option \<Rightarrow> bool" where
  "truthy v = (case v of None \<Rightarrow> True | Some t \<Rightarrow> t \<noteq> [])"

text \<open>
  \<^verbatim>\<open>sep.join(xs)\<close> on a list that may hold values that are no strings: those make it raise
  \<^verbatim>\<open>TypeError\<close>.
\<close>

definition str_join :: "string \<Rightarrow> string option list \<Rightarrow> error + string" where
  "str_join sep xs =
     (case those xs of None \<Rightarrow> Inl TypeError | Some ts \<Rightarrow> Inr (join sep ts))"

text \<open>The body of the row loop, from the four values of the row to its address.\<close>

definition build_row ::
  "string option \<Rightarrow> string option \<Rightarrow> string option \<Rightarrow> string option \<Rightarrow> error + string" where
  "build_row street zipc city country0 =
     (let country = (if \<not> truthy country0 then Some ''Deutschland'' else country0);
          segs0 = (if truthy street then [street] else []);
          place_parts = filter truthy [zipc, city]
      in case (if place_parts \<noteq> []
               then (case str_join '' '' place_parts of
                       Inl err \<Rightarrow> Inl err
                     | Inr place \<Rightarrow> Inr (segs0 @ [Some place]))
               else Inr segs0) of
           Inl err \<Rightarrow> Inl err
         | Inr segs1 \<Rightarrow> str_join '', '' (if truthy country then segs1 @ [country] else segs1))"

text \<open>A loop that appends what its body yields for each index; the first exception ends it.\<close>

fun collect :: "(nat \<Rightarrow> error + 'a) \<Rightarrow> nat list \<Rightarrow> error + 'a list" where
  "collect body [] = Inr []"
| "collect body (i # rest) =
     (case body i of
        Inl err \<Rightarrow> Inl err
      | Inr a \<Rightarrow> (case collect body rest of Inl err \<Rightarrow> Inl err | Inr as \<Rightarrow> Inr (a # as)))"

definition build_full_address ::
  "('c \<Rightarrow> string option) \<Rightarrow> 'c dataframe \<Rightarrow> (string \<rightharpoonup> string) \<Rightarrow> error + string list" where
  "build_full_address cell_text df col_map =
     (let street_s = col_or_empty cell_text df (col_map ''street'');
          zip_s = col_or_empty cell_text df (col_map ''zip'');
          city_s = col_or_empty cell_text df (col_map ''city'');
          country_s =
            (case col_map ''country'' of
               None \<Rightarrow> replicate (nrows df) (Some [])
             | Some n \<Rightarrow>
                 (if n \<noteq> [] then
                    (case columns df n of
                       Some cells \<Rightarrow> fillna [] (map cell_text cells)
                     | None \<Rightarrow> replicate (nrows df) (Some []))
                  else replicate (nrows df) (Some [])))
      in collect (\<lambda>i. build_row (iat_or_empty street_s i) (iat_or_empty zip_s i)
                        (iat_or_empty city_s i) (iat_or_empty country_s i))
           [0..<nrows df])"

text \<open>
  For the statements: the value of row \<open>i\<close> in the column a key of the column map names,
  as \<^verbatim>\<open>col_or_empty\<close> gives it; the country of row \<open>i\<close> after \<^verbatim>\<open>fillna\<close>; no column chosen
  for the key, or the chosen column not in the frame; and what the body of the row loop
  yields for row \<open>i\<close>.
\<close>

definition row_text ::
  "('c \<Rightarrow> string option) \<Rightarrow> 'c dataframe \<Rightarrow> string option \<Rightarrow> nat \<Rightarrow> string option" where
  "row_text cell_text df name i = iat_or_empty (col_or_empty cell_text df name) i"

definition column_absent :: "'c dataframe \<Rightarrow> string option \<Rightarrow> bool" where
  "column_absent df name =
     (case name of None \<Rightarrow> True | Some n \<Rightarrow> n = [] \<or> columns df n = None)"

definition country_value ::
  "('c \<Rightarrow> string option) \<Rightarrow> 'c dataframe \<Rightarrow> string option \<Rightarrow> nat \<Rightarrow> string" where
  "country_value cell_text df name i =
     (case row_text cell_text df name i of None \<Rightarrow> [] | Some t \<Rightarrow> t)"

definition row_address ::
  "('c \<Rightarrow> string option) \<Rightarrow> 'c dataframe \<Rightarrow> (string \<rightharpoonup> string) \<Rightarrow> nat \<Rightarrow> error + string" where
  "row_address cell_text df col_map i =
     build_row (row_text cell_text df (col_map ''street'') i)
               (row_text cell_text df (col_map ''zip'') i)
               (row_text cell_text df (col_map ''city'') i)
               (Some (country_value cell_text df (col_map ''country'') i))"

section \<open>Floating point\<close>

text \<open>
  A finite binary64 value is the rational number it stands for.  The arithmetic of the
  matrix assembly is the exact operation followed by rounding to the nearest binary64
  value, ties to the even significand (\<open>fl\<close>); this covers the range of normal numbers,
  and the quotients formed below from integers that pass \<open>float_of_int\<close> stay inside it.
\<close>

definition round_half_even :: "rat \<Rightarrow> int" where
  "round_half_even x =
     (let f = \<lfloor>x\<rfloor>; r = x - of_int f
      in if r < 1 / 2 then f else if 1 / 2 < r then f + 1 else if even f then f else f + 1)"

text \<open>\<^verbatim>\<open>int.bit_length\<close>\<close>

fun bit_length :: "nat \<Rightarrow> nat" where
  "bit_length n = (if n = 0 then 0 else Suc (bit_length (n div 2)))"

text \<open>The exponent \<open>e\<close> with \<open>2\<^sup>e \<le> |x| < 2\<^sup>e\<^sup>+\<^sup>1\<close>, for \<open>x \<noteq> 0\<close>.\<close>

definition binade :: "rat \<Rightarrow> int" where
  "binade x =
     (let a = \<bar>x\<bar>
      in if 1 \<le> a then int (bit_length (nat \<lfloor>a\<rfloor>)) - 1
         else - int (bit_length (nat (\<lceil>1 / a\<rceil> - 1))))"

definition fl :: "rat \<Rightarrow> rat" where
  "fl x =
     (if x = 0 then 0
      else let ulp = 2 powi (binade x - 52)
           in of_int (round_half_even (x / ulp)) * ulp)"

text \<open>
  \<^verbatim>\<open>int / float\<close> first turns the integer into a float, rounding it, and raises
  \<^verbatim>\<open>OverflowError\<close> when the rounded value is out of range.
\<close>

definition float_of_int :: "int \<Rightarrow> error + rat" where
  "float_of_int m =
     (let x = fl (of_int m) in if \<bar>x\<bar> < 2 ^ 1024 then Inr x else Inl OverflowError)"

definition float_div :: "rat \<Rightarrow> rat \<Rightarrow> rat" where
  "float_div a b = fl (a / b)"

text \<open>
  \<^verbatim>\<open>round(x, ndigits)\<close> on a float: the exact value of \<open>x\<close> rounded to \<open>ndigits\<close> decimals,
  ties to even, and the decimal so found turned into the nearest float.
\<close>

definition py_round :: "rat \<Rightarrow> nat \<Rightarrow> rat" where
  "py_round x ndigits = fl (of_int (round_half_even (x * 10 ^ ndigits)) / 10 ^ ndigits)"

section \<open>Matrix assembly\<close>

text \<open>
  The three frames \<^verbatim>\<open>dist_km\<close>, \<^verbatim>\<open>time_min\<close> and \<^verbatim>\<open>status_tbl\<close>, as lists of rows.  A
  cell that holds nothing (\<^verbatim>\<open>NaN\<close>, as all cells do at first, or an assigned \<^verbatim>\<open>None\<close>)
  is \<open>None\<close>.
\<close>

record matrices =
  dist_km :: "rat option list list"
  time_min :: "rat option list list"
  status_tbl :: "string option list list"

definition empty_frame :: "nat \<Rightarrow> 'a option list list" where
  "empty_frame n = replicate n (replicate n None)"

text \<open>\<^verbatim>\<open>frame.iat[i, j] = v\<close>; out of bounds it raises \<^verbatim>\<open>IndexError\<close>.\<close>

definition iat_set :: "'a list list \<Rightarrow> nat \<Rightarrow> nat \<Rightarrow> 'a \<Rightarrow> error + 'a list list" where
  "iat_set frame i j v =
     (if i < length frame \<and> j < length (frame ! i)
      then Inr (frame[i := (frame ! i)[j := v]])
      else Inl IndexError)"

text \<open>\<^verbatim>\<open>res.get((o, d), {"distance_m": None, "duration_s": None, "status": "N/A"})\<close>\<close>

definition lookup_pair :: "results \<Rightarrow> string \<Rightarrow> string \<Rightarrow> pair_result" where
  "lookup_pair res origin dest =
     (case res (origin, dest) of
        Some r \<Rightarrow> r
      | None \<Rightarrow> \<lparr>distance_m = None, duration_s = None, status = ''N/A''\<rparr>)"

text \<open>The float literal \<^verbatim>\<open>1609.344\<close>.\<close>

definition meters_per_mile :: rat where
  "meters_per_mile = fl (1609344 / 1000)"

text \<open>The values written to the distance and the duration cell.\<close>

definition km_cell :: "string \<Rightarrow> int option \<Rightarrow> error + rat option" where
  "km_cell units dist_m =
     (case dist_m of
        None \<Rightarrow> Inr None
      | Some m \<Rightarrow>
          (case float_of_int m of
             Inl err \<Rightarrow> Inl err
           | Inr x \<Rightarrow>
               (let km = (if units = ''metric'' then float_div x 1000
                          else float_div x meters_per_mile)
                in Inr (Some (py_round km 2)))))"

definition minutes_cell :: "int option \<Rightarrow> error + rat option" where
  "minutes_cell dur_s =
     (case dur_s of
        None \<Rightarrow> Inr None
      | Some s \<Rightarrow>
          (case float_of_int s of
             Inl err \<Rightarrow> Inl err
           | Inr x \<Rightarrow> (let minutes = float_div x 60 in Inr (Some (py_round minutes 1)))))"

text \<open>The body of the fill loops for the cell \<open>(i, j)\<close>.\<close>

definition fill_cell ::
  "string \<Rightarrow> results \<Rightarrow> nat \<Rightarrow> string \<Rightarrow> nat \<Rightarrow> string \<Rightarrow> matrices \<Rightarrow> error + matrices" where
  "fill_cell units res i origin j dest M =
     (let r = lookup_pair res origin dest in
      case km_cell units (distance_m r) of
        Inl err \<Rightarrow> Inl err
      | Inr km \<Rightarrow>
         (case iat_set (dist_km M) i j km of
            Inl err \<Rightarrow> Inl err
          | Inr D \<Rightarrow>
             (case minutes_cell (duration_s r) of
                Inl err \<Rightarrow> Inl err
              | Inr mins \<Rightarrow>
                 (case iat_set (time_min M) i j mins of
                    Inl err \<Rightarrow> Inl err
                  | Inr T \<Rightarrow>
                     (case iat_set (status_tbl M) i j (Some (status r)) of
                        Inl err \<Rightarrow> Inl err
                      | Inr S \<Rightarrow> Inr \<lparr>dist_km = D, time_min = T, status_tbl = S\<rparr>)))))"

definition fill_row ::
  "string \<Rightarrow> results \<Rightarrow> string list \<Rightarrow> nat \<times> string \<Rightarrow> matrices \<Rightarrow> error + matrices" where
  "fill_row units res destinations io M =
     for_each (\<lambda>jd. fill_cell units res (fst io) (snd io) (fst jd) (snd jd))
       (enumerate 0 destinations) M"

definition fill_matrices ::
  "string \<Rightarrow> results \<Rightarrow> string list \<Rightarrow> string list \<Rightarrow> matrices \<Rightarrow> error + matrices" where
  "fill_matrices units res origins destinations M =
     for_each (fill_row units res destinations) (enumerate 0 origins) M"

text \<open>The loop over the diagonal.\<close>

definition set_diagonal_cell :: "nat \<Rightarrow> matrices \<Rightarrow> error + matrices" where
  "set_diagonal_cell i M =
     (case iat_set (dist_km M) i i (Some 0) of
        Inl err \<Rightarrow> Inl err
      | Inr D \<Rightarrow>
         (case iat_set (time_min M) i i (Some 0) of
            Inl err \<Rightarrow> Inl err
          | Inr T \<Rightarrow>
             (case iat_set (status_tbl M) i i (Some ''OK'') of
                Inl err \<Rightarrow> Inl err
              | Inr S \<Rightarrow> Inr \<lparr>dist_km = D, time_min = T, status_tbl = S\<rparr>)))"

definition set_diagonal :: "string list \<Rightarrow> matrices \<Rightarrow> error + matrices" where
  "set_diagonal names M = for_each set_diagonal_cell [0..<length names] M"

text \<open>
  The assembly as the script runs it: three empty frames indexed by the names, the fill
  loops with the token list as origins and as destinations, then the diagonal.
\<close>

definition filled_matrices ::
  "string \<Rightarrow> results \<Rightarrow> string list \<Rightarrow> string list \<Rightarrow> error + matrices" where
  "filled_matrices units res names origin_tokens =
     (let n = length names;
          M0 = \<lparr>dist_km = empty_frame n, time_min = empty_frame n, status_tbl = empty_frame n\<rparr>
      in fill_matrices units res origin_tokens origin_tokens M0)"

definition assemble_matrices ::
  "string \<Rightarrow> results \<Rightarrow> string list \<Rightarrow> string list \<Rightarrow> error + matrices" where
  "assemble_matrices units res names origin_tokens =
     (case filled_matrices units res names origin_tokens of
        Inl err \<Rightarrow> Inl err
      | Inr M1 \<Rightarrow> set_diagonal names M1)"

text \<open>
  For the proofs: a frame of \<open>n\<close> rows of \<open>n\<close> cells, the three cells at a position, and
  the three values the fill loops compute for a pair of tokens.
\<close>

definition square :: "nat \<Rightarrow> 'a list list \<Rightarrow> bool" where
  "square n frame = (length frame = n \<and> (\<forall>i < n. length (frame ! i) = n))"

definition shaped :: "nat \<Rightarrow> matrices \<Rightarrow> bool" where
  "shaped n M = (square n (dist_km M) \<and> square n (time_min M) \<and> square n (status_tbl M))"

definition cell :: "matrices \<Rightarrow> nat \<Rightarrow> nat \<Rightarrow> rat option \<times> rat option \<times> string option" where
  "cell M i j = (dist_km M ! i ! j, time_min M ! i ! j, status_tbl M ! i ! j)"

definition cell_value ::
  "string \<Rightarrow> results \<Rightarrow> string \<Rightarrow> string \<Rightarrow> error + rat option \<times> rat option \<times> string option" where
  "cell_value units res origin dest =
     (let r = lookup_pair res origin dest in
      case km_cell units (distance_m r) of
        Inl err \<Rightarrow> Inl err
      | Inr km \<Rightarrow>
         (case minutes_cell (duration_s r) of
            Inl err \<Rightarrow> Inl err
          | Inr mins \<Rightarrow> Inr (km, mins, Some (status r))))"

section \<open>Concrete services and sessions for the examples\<close>

text \<open>A geocoder that knows one town and counts its calls; a session that has seen nothing.\<close>

definition town_geocoder :: "(nat, int) geocode_api" where
  "town_geocoder w address key =
     (if address = ''Ulm'' then GeoResults [(48, 10)] else GeoResults [], Suc w)"

definition fresh_session :: "(nat, int) session" where
  "fresh_session = \<lparr>geocode_cache = Map.empty, world = 0, geo_calls = [], warnings = []\<rparr>"

text \<open>
  A sheet of two clubs and its column map.  The cells are given as what
  \<^verbatim>\<open>astype(str).str.strip()\<close> leaves of them.  The first club has a blank country cell;
  the second has only spaces for street, zip and city, and a blank country cell.  In the
  second sheet the street of the second club is a blank cell.
\<close>

definition club_frame :: "string option dataframe" where
  "club_frame =
     \<lparr>nrows = 2,
      columns = [''Adresse'' \<mapsto> [Some ''Hauptstr. 1'', Some []],
                 ''PLZ'' \<mapsto> [Some ''12345'', Some []],
                 ''Ort'' \<mapsto> [Some ''Berlin'', Some []],
                 ''Land'' \<mapsto> [None, None]]\<rparr>"

definition club_columns :: "string \<rightharpoonup> string" where
  "club_columns =
     [''street'' \<mapsto> ''Adresse'', ''zip'' \<mapsto> ''PLZ'', ''city'' \<mapsto> ''Ort'', ''country'' \<mapsto> ''Land'']"

definition gap_frame :: "string option dataframe" where
  "gap_frame =
     \<lparr>nrows = 2,
      columns = [''Adresse'' \<mapsto> [Some ''Hauptstr. 1'', None],
                 ''PLZ'' \<mapsto> [Some ''12345'', Some ''54321''],
                 ''Ort'' \<mapsto> [Some ''Berlin'', Some ''Trier''],
                 ''Land'' \<mapsto> [None, None]]\<rparr>"

text \<open>
  Two clubs and what the distance service said about their tokens: a self-pair with a
  distance that is not zero, a self-pair with a status that is not \<^verbatim>\<open>OK\<close>, and no entry
  for the way back.
\<close>

definition sample_results :: results where
  "sample_results =
     [(''A'', ''A'') \<mapsto> \<lparr>distance_m = Some 1000, duration_s = Some 600, status = ''OK''\<rparr>,
      (''A'', ''B'') \<mapsto> \<lparr>distance_m = Some 1500, duration_s = Some 600, status = ''OK''\<rparr>,
      (''B'', ''B'') \<mapsto> \<lparr>distance_m = None, duration_s = None, status = ''NOT_FOUND''\<rparr>]"

definition sample_filled :: matrices where
  "sample_filled =
     \<lparr>dist_km = [[Some 1, Some (3 / 2)], [None, None]],
      time_min = [[Some 10, Some 10], [None, None]],
      status_tbl = [[Some ''OK'', Some ''OK''], [Some ''N/A'', Some ''NOT_FOUND'']]\<rparr>"

definition sample_matrices :: matrices where
  "sample_matrices =
     \<lparr>dist_km = [[Some 0, Some (3 / 2)], [None, Some 0]],
      time_min = [[Some 0, Some 10], [None, Some 0]],
      status_tbl = [[Some ''OK'', Some ''OK''], [Some ''N/A'', Some ''OK'']]\<rparr>"

text \<open>
  A distance service whose first answer is a timeout and whose later answers are one row
  of one element; 26 tokens that differ from each other; and the states in which two runs
  over 26 origins and one destination end, the first with 26 times the same origin, the
  second with the 26 different ones.
\<close>

definition ok_elem :: elem where
  "ok_elem = \<lparr>elem_status = ''OK'', elem_distance = Some 5000, elem_duration = Some 420\<rparr>"

definition flaky_api :: "nat distance_api" where
  "flaky_api w p = (if w = 0 then RequestRaise ''timeout'' else Rows [[ok_elem]], Suc w)"

definition tally :: "nat \<Rightarrow> string" where
  "tally i = replicate (Suc i) CHR ''I''"

definition overwritten_run :: "nat batch_state" where
  "overwritten_run =
     \<lparr>results = (mark_failed (replicate 25 ''A'') [''D''] ''timeout'' Map.empty)
                  ((''A'', ''D'') \<mapsto> elem_result ok_elem),
      dm_world = 2,
      exchanges =
        [(request_params ''k'' ''driving'' ''metric'' False (replicate 25 ''A'') [''D''],
          RequestRaise ''timeout''),
         (request_params ''k'' ''driving'' ''metric'' False [''A''] [''D''], Rows [[ok_elem]])]\<rparr>"

definition isolated_run :: "nat batch_state" where
  "isolated_run =
     \<lparr>results = (mark_failed (map tally [0..<25]) [''D''] ''timeout'' Map.empty)
                  ((tally 25, ''D'') \<mapsto> elem_result ok_elem),
      dm_world = 2,
      exchanges =
        [(request_params ''k'' ''driving'' ''metric'' False (map tally [0..<25]) [''D''],
          RequestRaise ''timeout''),
         (request_params ''k'' ''driving'' ''metric'' False [tally 25] [''D''],
          Rows [[ok_elem]])]\<rparr>"

text \<open>A distance service that answers every request with no rows.\<close>

definition quiet_api :: "nat distance_api" where
  "quiet_api w p = (Rows [], Suc w)"

section \<open>Properties of the geocoder\<close>

lemma call_geocoder_cache:
  "call_geocoder g c r a k s = (resp, s1) \<Longrightarrow> geocode_cache s1 = geocode_cache s"
  by (auto simp: call_geocoder_def split: prod.splits)

lemma google_geocode_caches:
  assumes "a \<noteq> []" and "google_geocode g c r a k s = (v, s')"
  shows "geocode_cache s' a = Some v"
proof (cases "geocode_cache s a")
  case (Some u)
  with assms show ?thesis by (simp add: google_geocode_def)
next
  case None
  obtain resp s1 where c: "call_geocoder g c r a k s = (resp, s1)"
    by (cases "call_geocoder g c r a k s")
  with assms None show ?thesis
    by (cases resp)
       (auto simp: google_geocode_def cache_store_def split: list.splits)
qed

lemma google_geocode_hit:
  assumes "a \<noteq> []" and "geocode_cache s a = Some v"
  shows "google_geocode g c r a k s = (v, s)"
  using assms by (simp add: google_geocode_def)

text \<open>
  C10.  With the empty address, \<^verbatim>\<open>google_geocode\<close> returns \<^verbatim>\<open>None\<close> and leaves the whole
  session as it was: no external call is logged, the world is untouched, the cache has
  the same entries (so no entry for the empty address appears), and no warning is shown.
\<close>

theorem geocode_empty_address:
  "google_geocode g c r [] k s = (None, s)"
  by (simp add: google_geocode_def)

text \<open>
  C3.  Call \<^verbatim>\<open>google_geocode\<close> with an address from any session state; it returns \<open>v\<close>
  and leaves the state \<open>s1\<close>.  Now take any later state \<open>s2\<close> in which the cache says
  about this address what it said in \<open>s1\<close> (other addresses may have been looked up in
  between, the world may have changed).  A call with the same address in \<open>s2\<close> returns
  \<open>v\<close> again, issues no external call and changes nothing: the state after it is \<open>s2\<close>.
  For a non-empty address \<open>v\<close> is the very entry the cache holds for the address,
  coordinates or the stored \<^verbatim>\<open>None\<close>.
\<close>

theorem geocode_second_call_cached:
  assumes "google_geocode g c r a k s = (v, s1)"
      and "geocode_cache s2 a = geocode_cache s1 a"
  shows "google_geocode g c r a k' s2 = (v, s2)
           \<and> geo_calls (snd (google_geocode g c r a k' s2)) = geo_calls s2
           \<and> (a \<noteq> [] \<longrightarrow> geocode_cache s1 a = Some v)"
proof -
  have second: "google_geocode g c r a k' s2 = (v, s2)"
  proof (cases "a = []")
    case True
    with assms(1) show ?thesis by (simp add: google_geocode_def)
  next
    case False
    from False assms(1) have "geocode_cache s1 a = Some v" by (rule google_geocode_caches)
    with assms(2) have "geocode_cache s2 a = Some v" by simp
    with False show ?thesis by (rule google_geocode_hit)
  qed
  have "a \<noteq> [] \<longrightarrow> geocode_cache s1 a = Some v"
    using assms(1) google_geocode_caches by (cases "a = []") auto
  with second show ?thesis by simp
qed

theorem geocode_second_call_cached_witness:
  "google_geocode False town_geocoder town_geocoder ''Atlantis'' ''k'' fresh_session =
     (None, \<lparr>geocode_cache = [''Atlantis'' \<mapsto> None], world = 1,
             geo_calls = [(''Atlantis'', ''k'')], warnings = []\<rparr>)
   \<and> google_geocode False town_geocoder town_geocoder ''Ulm'' ''k''
       \<lparr>geocode_cache = [''Atlantis'' \<mapsto> None], world = 1,
        geo_calls = [(''Atlantis'', ''k'')], warnings = []\<rparr> =
     (Some (48, 10),
      \<lparr>geocode_cache = [''Atlantis'' \<mapsto> None, ''Ulm'' \<mapsto> Some (48, 10)], world = 2,
       geo_calls = [(''Atlantis'', ''k''), (''Ulm'', ''k'')], warnings = []\<rparr>)
   \<and> google_geocode False town_geocoder town_geocoder ''Atlantis'' ''k''
       \<lparr>geocode_cache = [''Atlantis'' \<mapsto> None, ''Ulm'' \<mapsto> Some (48, 10)], world = 2,
        geo_calls = [(''Atlantis'', ''k''), (''Ulm'', ''k'')], warnings = []\<rparr> =
     (None,
      \<lparr>geocode_cache = [''Atlantis'' \<mapsto> None, ''Ulm'' \<mapsto> Some (48, 10)], world = 2,
       geo_calls = [(''Atlantis'', ''k''), (''Ulm'', ''k'')], warnings = []\<rparr>)"
proof -
  let ?s1 = "\<lparr>geocode_cache = [''Atlantis'' \<mapsto> None], world = 1::nat,
             geo_calls = [(''Atlantis'', ''k'')], warnings = []\<rparr> :: (nat, int) session"
  let ?s2 = "\<lparr>geocode_cache = [''Atlantis'' \<mapsto> None, ''Ulm'' \<mapsto> Some (48, 10)], world = 2::nat,
             geo_calls = [(''Atlantis'', ''k''), (''Ulm'', ''k'')], warnings = []\<rparr>
             :: (nat, int) session"
  have first: "google_geocode False town_geocoder town_geocoder ''Atlantis'' ''k'' fresh_session =
     (None, ?s1)"
    by (simp add: google_geocode_def call_geocoder_def cache_store_def town_geocoder_def
        fresh_session_def)
  have between: "google_geocode False town_geocoder town_geocoder ''Ulm'' ''k'' ?s1 =
     (Some (48, 10), ?s2)"
    by (simp add: google_geocode_def call_geocoder_def cache_store_def town_geocoder_def)
  have same: "geocode_cache ?s2 ''Atlantis'' = geocode_cache ?s1 ''Atlantis''"
    by simp
  from geocode_second_call_cached [OF first same, of "''k''"] first between show ?thesis
    by simp
qed

section \<open>Properties of the batch distance client\<close>

subsection \<open>Chunking\<close>

declare chunks_from.simps [simp del]

lemma chunks_from_step:
  "0 < n \<Longrightarrow> i < length lst \<Longrightarrow>
   chunks_from lst n i = take n (drop i lst) # chunks_from lst n (i + n)"
  by (subst chunks_from.simps) simp

lemma chunks_from_stop:
  "\<not> (0 < n \<and> i < length lst) \<Longrightarrow> chunks_from lst n i = []"
  by (subst chunks_from.simps) simp

lemma chunks_from_concat:
  "0 < n \<Longrightarrow> concat (chunks_from lst n i) = drop i lst"
proof (induction lst n i rule: chunks_from.induct)
  case (1 lst n i)
  show ?case
  proof (cases "i < length lst")
    case True
    with 1 have "concat (chunks_from lst n (i + n)) = drop (i + n) lst" by simp
    then have "concat (chunks_from lst n i) = take n (drop i lst) @ drop (i + n) lst"
      using True 1(2) by (simp add: chunks_from_step)
    also have "drop (i + n) lst = drop n (drop i lst)"
      by (simp add: add.commute)
    finally show ?thesis by (simp only: append_take_drop_id)
  next
    case False
    then show ?thesis by (simp add: chunks_from_stop)
  qed
qed

lemma chunks_from_bounds:
  "c \<in> set (chunks_from lst n i) \<Longrightarrow> c \<noteq> [] \<and> length c \<le> n"
proof (induction lst n i rule: chunks_from.induct)
  case (1 lst n i)
  show ?case
  proof (cases "0 < n \<and> i < length lst")
    case True
    then have eq: "chunks_from lst n i = take n (drop i lst) # chunks_from lst n (i + n)"
      by (simp add: chunks_from_step)
    from 1(2) eq have "c = take n (drop i lst) \<or> c \<in> set (chunks_from lst n (i + n))"
      by simp
    then show ?thesis
    proof
      assume "c = take n (drop i lst)"
      with True show ?thesis by simp
    next
      assume "c \<in> set (chunks_from lst n (i + n))"
      with 1(1) True show ?thesis by simp
    qed
  next
    case False
    with 1(2) show ?thesis by (simp add: chunks_from_stop)
  qed
qed


subsection \<open>Loops\<close>

lemma for_each_append:
  "for_each body (xs @ ys) s =
     (case for_each body xs s of Inl err \<Rightarrow> Inl err | Inr s' \<Rightarrow> for_each body ys s')"
  by (induction xs arbitrary: s) (auto split: sum.splits)

lemma for_each_nested:
  "for_each (\<lambda>x. for_each (body x) ys) xs s =
   for_each (\<lambda>(x, y). body x y) (List.product xs ys) s"
proof (induction xs arbitrary: s)
  case Nil
  show ?case by simp
next
  case (Cons x xs)
  have inner: "for_each (\<lambda>(x, y). body x y) (map (Pair x) ys) t = for_each (body x) ys t" for t
    by (induction ys arbitrary: t) (auto split: sum.splits)
  show ?case
    by (simp add: for_each_append inner Cons.IH split: sum.splits)
qed


subsection \<open>One chunk pair\<close>

lemma on_exception_Inr:
  "on_exception d oc dc msg st = Inr st' \<Longrightarrow>
   0 \<le> d \<and> st' = st\<lparr>results := mark_failed oc dc msg (results st)\<rparr>"
  by (auto simp: on_exception_def sleep_def Let_def split: if_splits)

lemma chunk_pair_step_Inr:
  assumes "chunk_pair_step api key mode units tr d oc dc st = Inr st'"
  shows "0 \<le> d
     \<and> exchanges st' = exchanges st @
          [(request_params key mode units tr oc dc,
            fst (api (dm_world st) (request_params key mode units tr oc dc)))]
     \<and> dm_world st' = snd (api (dm_world st) (request_params key mode units tr oc dc))
     \<and> results st' =
          step_results oc dc (fst (api (dm_world st) (request_params key mode units tr oc dc)))
            (results st)"
proof -
  obtain resp w' where a: "api (dm_world st) (request_params key mode units tr oc dc) = (resp, w')"
    by (cases "api (dm_world st) (request_params key mode units tr oc dc)")
  show ?thesis
  proof (cases resp)
    case (RequestRaise msg)
    with assms a show ?thesis
      by (auto simp: chunk_pair_step_def Let_def step_results_def dest!: on_exception_Inr)
  next
    case (Rows rows)
    obtain m res' where r: "record_rows oc dc 0 rows (results st) = (m, res')"
      by (cases "record_rows oc dc 0 rows (results st)")
    show ?thesis
    proof (cases m)
      case None
      with assms a Rows r show ?thesis
        by (auto simp: chunk_pair_step_def Let_def step_results_def sleep_def
                 split: if_splits dest!: on_exception_Inr)
    next
      case (Some msg)
      with assms a Rows r show ?thesis
        by (auto simp: chunk_pair_step_def Let_def step_results_def dest!: on_exception_Inr)
    qed
  qed
qed



lemma for_each_snoc_Inr:
  "for_each body (xs @ [x]) s = Inr s' \<longleftrightarrow>
   (\<exists>s1. for_each body xs s = Inr s1 \<and> body x s1 = Inr s')"
  by (auto simp: for_each_append split: sum.splits)

subsection \<open>The whole run\<close>

lemma run_exchanges:
  "for_each (pair_step api key mode units tr d) ps st = Inr st' \<Longrightarrow>
   map fst (exchanges st') =
     map fst (exchanges st) @ map (\<lambda>p. request_params key mode units tr (fst p) (snd p)) ps"
proof (induction ps arbitrary: st' rule: rev_induct)
  case Nil
  then show ?case by simp
next
  case (snoc p ps)
  from snoc.prems obtain s1 where
    a: "for_each (pair_step api key mode units tr d) ps st = Inr s1" and
    b: "pair_step api key mode units tr d p s1 = Inr st'"
    by (auto simp: for_each_snoc_Inr)
  from b have "exchanges st' = exchanges s1 @
     [(request_params key mode units tr (fst p) (snd p),
       fst (api (dm_world s1) (request_params key mode units tr (fst p) (snd p))))]"
    unfolding pair_step_def by (rule chunk_pair_step_Inr [THEN conjunct2, THEN conjunct1])
  with snoc.IH [OF a] show ?case by simp
qed

lemma chunk_list_Inr: "0 < n \<Longrightarrow> chunk_list lst n = Inr (chunks_from lst n 0)"
  by (simp add: chunk_list_def)

lemma distance_matrix_batch_unfold:
  "distance_matrix_batch api origins destinations key mode units tr d w =
   for_each (pair_step api key mode units tr d)
     (List.product (chunks_from origins 25 0) (chunks_from destinations 25 0))
     \<lparr>results = Map.empty, dm_world = w, exchanges = []\<rparr>"
proof -
  have "(\<lambda>(x, y). chunk_pair_step api key mode units tr d x y) = pair_step api key mode units tr d"
    by (auto simp: pair_step_def fun_eq_iff)
  then show ?thesis
    by (simp add: distance_matrix_batch_def chunk_list_Inr max_origins_def max_destinations_def
        for_each_nested)
qed




text \<open>
  C9.  In a run of \<^verbatim>\<open>distance_matrix_batch\<close> that returns, the \<open>n\<close>-th request sent belongs
  to the \<open>n\<close>-th pair of chunks; its \<^verbatim>\<open>origins\<close> and \<^verbatim>\<open>destinations\<close> parameters are the
  tokens of the two chunks joined by \<^verbatim>\<open>|\<close>, and it has a \<^verbatim>\<open>departure_time\<close> parameter,
  with the value \<^verbatim>\<open>now\<close>, exactly when \<^verbatim>\<open>use_traffic\<close> is set and the mode is
  \<^verbatim>\<open>driving\<close>; otherwise the parameter is absent.
\<close>

theorem batch_request_parameters:
  assumes "distance_matrix_batch api origins destinations key mode units use_traffic
             rate_limit_delay w = Inr st"
      and "n < length (exchanges st)"
  shows "\<exists>o_chunks d_chunks o_chunk d_chunk.
      chunk_list origins max_origins = Inr o_chunks
    \<and> chunk_list destinations max_destinations = Inr d_chunks
    \<and> n < length (List.product o_chunks d_chunks)
    \<and> List.product o_chunks d_chunks ! n = (o_chunk, d_chunk)
    \<and> fst (exchanges st ! n) ''origins'' = Some (join ''|'' o_chunk)
    \<and> fst (exchanges st ! n) ''destinations'' = Some (join ''|'' d_chunk)
    \<and> (fst (exchanges st ! n) ''departure_time'' = Some ''now''
          \<longleftrightarrow> use_traffic \<and> mode = ''driving'')
    \<and> (fst (exchanges st ! n) ''departure_time'' = None
          \<longleftrightarrow> \<not> (use_traffic \<and> mode = ''driving''))"
proof -
  let ?ocs = "chunks_from origins 25 0" and ?dcs = "chunks_from destinations 25 0"
  let ?ps = "List.product ?ocs ?dcs"
  from assms(1) have run: "for_each (pair_step api key mode units use_traffic rate_limit_delay) ?ps
      \<lparr>results = Map.empty, dm_world = w, exchanges = []\<rparr> = Inr st"
    by (simp only: distance_matrix_batch_unfold)
  have ex: "map fst (exchanges st) =
      map (\<lambda>p. request_params key mode units use_traffic (fst p) (snd p)) ?ps"
    using run_exchanges [OF run] by simp
  then have "length (map fst (exchanges st)) = length ?ps" by (simp only: length_map)
  with assms(2) have n: "n < length ?ps" by simp
  obtain oc dc where p: "?ps ! n = (oc, dc)" by (cases "?ps ! n")
  have "fst (exchanges st ! n) = map fst (exchanges st) ! n"
    using assms(2) by simp
  also have "\<dots> = request_params key mode units use_traffic oc dc"
    using n p by (simp add: ex)
  finally have q: "fst (exchanges st ! n) = request_params key mode units use_traffic oc dc" .
  have clo: "chunk_list origins max_origins = Inr ?ocs"
    and cld: "chunk_list destinations max_destinations = Inr ?dcs"
    by (simp_all add: chunk_list_Inr max_origins_def max_destinations_def)
  have f1: "request_params key mode units use_traffic oc dc ''origins'' = Some (join ''|'' oc)"
    and f2: "request_params key mode units use_traffic oc dc ''destinations'' = Some (join ''|'' dc)"
    and f3: "request_params key mode units use_traffic oc dc ''departure_time'' = Some ''now''
          \<longleftrightarrow> use_traffic \<and> mode = ''driving''"
    and f4: "request_params key mode units use_traffic oc dc ''departure_time'' = None
          \<longleftrightarrow> \<not> (use_traffic \<and> mode = ''driving'')"
    by (simp_all add: request_params_def Let_def)
  have "chunk_list origins max_origins = Inr ?ocs
    \<and> chunk_list destinations max_destinations = Inr ?dcs
    \<and> n < length (List.product ?ocs ?dcs)
    \<and> List.product ?ocs ?dcs ! n = (oc, dc)
    \<and> fst (exchanges st ! n) ''origins'' = Some (join ''|'' oc)
    \<and> fst (exchanges st ! n) ''destinations'' = Some (join ''|'' dc)
    \<and> (fst (exchanges st ! n) ''departure_time'' = Some ''now''
          \<longleftrightarrow> use_traffic \<and> mode = ''driving'')
    \<and> (fst (exchanges st ! n) ''departure_time'' = None
          \<longleftrightarrow> \<not> (use_traffic \<and> mode = ''driving''))"
    unfolding q using clo cld n p f1 f2 f3 f4 by - (intro conjI; assumption)
  then show ?thesis by (intro exI)
qed

theorem batch_request_parameters_witness:
  "distance_matrix_batch quiet_api [''A'', ''B''] [''C''] ''k'' ''driving'' ''metric'' True (1 / 10) 0 =
     Inr \<lparr>results = Map.empty, dm_world = 1,
          exchanges = [(request_params ''k'' ''driving'' ''metric'' True [''A'', ''B''] [''C''], Rows [])]\<rparr>
   \<and> request_params ''k'' ''driving'' ''metric'' True [''A'', ''B''] [''C''] ''origins'' = Some ''A|B''
   \<and> request_params ''k'' ''driving'' ''metric'' True [''A'', ''B''] [''C''] ''destinations'' = Some ''C''
   \<and> request_params ''k'' ''driving'' ''metric'' True [''A'', ''B''] [''C''] ''departure_time'' = Some ''now''"
proof -
  have run: "distance_matrix_batch quiet_api [''A'', ''B''] [''C''] ''k'' ''driving'' ''metric'' True
      (1 / 10) 0 =
     Inr \<lparr>results = Map.empty, dm_world = 1,
          exchanges = [(request_params ''k'' ''driving'' ''metric'' True [''A'', ''B''] [''C''], Rows [])]\<rparr>"
    by (simp add: distance_matrix_batch_unfold chunks_from.simps pair_step_def
        chunk_pair_step_def quiet_api_def sleep_def Let_def)
  from batch_request_parameters [OF run, of 0] run show ?thesis
    by (simp add: chunk_list_def max_origins_def max_destinations_def chunks_from.simps)
qed

section \<open>Properties of the address builder\<close>

lemma collect_Inr:
  assumes "collect body idx = Inr as"
  shows "length as = length idx \<and> (\<forall>n < length idx. body (idx ! n) = Inr (as ! n))"
  using assms
proof (induction idx arbitrary: as)
  case Nil
  then show ?case by simp
next
  case (Cons i rest)
  from Cons.prems obtain a as' where
    a: "body i = Inr a" and r: "collect body rest = Inr as'" and as: "as = a # as'"
    by (auto split: sum.splits)
  from Cons.IH [OF r] have len: "length as' = length rest"
    and nth: "\<forall>n < length rest. body (rest ! n) = Inr (as' ! n)"
    by simp_all
  have "body ((i # rest) ! n) = Inr (as ! n)" if "n < length (i # rest)" for n
  proof (cases n)
    case 0
    with a as show ?thesis by simp
  next
    case (Suc m)
    with that have "m < length rest" by simp
    with nth have "body (rest ! m) = Inr (as' ! m)" by blast
    with Suc as show ?thesis by simp
  qed
  with len as show ?case by simp
qed

lemma collect_total:
  assumes "\<forall>i \<in> set idx. \<exists>a. body i = Inr a"
  shows "\<exists>as. collect body idx = Inr as"
  using assms
proof (induction idx)
  case Nil
  show ?case by simp
next
  case (Cons i rest)
  from Cons.prems obtain a where "body i = Inr a" by auto
  moreover from Cons obtain as where "collect body rest = Inr as" by auto
  ultimately show ?case by simp
qed

lemma collect_raises:
  assumes "i \<in> set idx" and "body i = Inl err"
      and "\<forall>j e. body j = Inl e \<longrightarrow> e = err"
  shows "collect body idx = Inl err"
  using assms(1)
proof (induction idx)
  case Nil
  then show ?case by simp
next
  case (Cons j rest)
  show ?case
  proof (cases "body j")
    case (Inl e)
    with assms(3) have "e = err" by blast
    with Inl show ?thesis by simp
  next
    case (Inr a)
    with Cons.prems assms(2) have "i \<in> set rest" by auto
    then have "collect body rest = Inl err" by (rule Cons.IH)
    with Inr show ?thesis by simp
  qed
qed

lemma build_row_texts:
  "build_row (Some s) (Some z) (Some c) (Some k) =
     Inr (join '', '' (filter (\<lambda>x. x \<noteq> [])
       [s, join '' '' (filter (\<lambda>p. p \<noteq> []) [z, c]),
        if k = [] then ''Deutschland'' else k]))"
  by (simp add: build_row_def truthy_def str_join_def Let_def)

lemma build_row_missing:
  assumes "street = None \<or> zipc = None \<or> city = None"
  shows "build_row street zipc city (Some k) = Inl TypeError"
  using assms
  by (cases street; cases zipc; cases city)
     (auto simp: build_row_def truthy_def str_join_def Let_def)

text \<open>
  Where missing values have become the text \<^verbatim>\<open>nan\<close>, that text is a segment like any
  other.
\<close>

lemma build_row_nan:
  "build_row (Some ''nan'') (Some ''nan'') (Some ''nan'') (Some ''nan'') =
     Inr ''nan, nan nan, nan''"
  by (simp add: build_row_texts)

lemma build_row_error: "build_row street zipc city country = Inl e \<Longrightarrow> e = TypeError"
  by (auto simp: build_row_def str_join_def Let_def split: if_splits sum.splits option.splits)

lemma country_series_iat:
  "iat_or_empty
     (case name of
        None \<Rightarrow> replicate (nrows df) (Some [])
      | Some n \<Rightarrow>
          (if n \<noteq> [] then
             (case columns df n of
                Some cells \<Rightarrow> fillna [] (map cell_text cells)
              | None \<Rightarrow> replicate (nrows df) (Some []))
           else replicate (nrows df) (Some []))) i =
   Some (country_value cell_text df name i)"
  by (auto simp: country_value_def row_text_def col_or_empty_def iat_or_empty_def fillna_def
           split: option.splits)

lemma build_full_address_collect:
  "build_full_address cell_text df col_map =
     collect (row_address cell_text df col_map) [0..<nrows df]"
proof -
  have "row_address cell_text df col_map =
          (\<lambda>i. build_row (iat_or_empty (col_or_empty cell_text df (col_map ''street'')) i)
                 (iat_or_empty (col_or_empty cell_text df (col_map ''zip'')) i)
                 (iat_or_empty (col_or_empty cell_text df (col_map ''city'')) i)
                 (Some (country_value cell_text df (col_map ''country'') i)))"
    by (rule ext) (simp add: row_address_def row_text_def)
  then show ?thesis
    by (simp add: build_full_address_def Let_def country_series_iat)
qed

lemma build_full_address_nth:
  assumes "build_full_address cell_text df col_map = Inr full" and "i < nrows df"
  shows "length full = nrows df \<and> row_address cell_text df col_map i = Inr (full ! i)"
proof -
  from assms(1) have "collect (row_address cell_text df col_map) [0..<nrows df] = Inr full"
    by (simp only: build_full_address_collect)
  from collect_Inr [OF this] assms(2) show ?thesis by simp
qed

lemma build_full_address_returns:
  assumes "\<forall>i < nrows df. row_text cell_text df (col_map ''street'') i \<noteq> None
             \<and> row_text cell_text df (col_map ''zip'') i \<noteq> None
             \<and> row_text cell_text df (col_map ''city'') i \<noteq> None"
  shows "\<exists>full. build_full_address cell_text df col_map = Inr full"
  unfolding build_full_address_collect
proof (rule collect_total, intro ballI)
  fix i
  assume "i \<in> set [0..<nrows df]"
  then have "i < nrows df" by simp
  with assms obtain s z c where
    "row_text cell_text df (col_map ''street'') i = Some s"
    "row_text cell_text df (col_map ''zip'') i = Some z"
    "row_text cell_text df (col_map ''city'') i = Some c"
    by auto
  then show "\<exists>a. row_address cell_text df col_map i = Inr a"
    by (simp add: row_address_def build_row_texts)
qed

lemma build_full_address_raises:
  assumes "i < nrows df"
      and "row_text cell_text df (col_map ''street'') i = None
             \<or> row_text cell_text df (col_map ''zip'') i = None
             \<or> row_text cell_text df (col_map ''city'') i = None"
  shows "build_full_address cell_text df col_map = Inl TypeError"
  unfolding build_full_address_collect
proof (rule collect_raises)
  show "i \<in> set [0..<nrows df]" using assms(1) by simp
  show "row_address cell_text df col_map i = Inl TypeError"
    unfolding row_address_def using assms(2) by (rule build_row_missing)
  show "\<forall>j e. row_address cell_text df col_map j = Inl e \<longrightarrow> e = TypeError"
    unfolding row_address_def using build_row_error by blast
qed

lemma absent_row_text:
  "column_absent df name \<Longrightarrow> row_text cell_text df name i = Some []"
  by (auto simp: column_absent_def row_text_def col_or_empty_def iat_or_empty_def
           split: option.splits)

lemma blank_country_value:
  assumes "column_absent df name \<or> row_text cell_text df name i = None
             \<or> row_text cell_text df name i = Some []"
  shows "country_value cell_text df name i = []"
  using assms absent_row_text [of df name cell_text i] by (auto simp: country_value_def)


lemma club_texts:
  "row_text (\<lambda>c. c) club_frame (club_columns ''street'') 0 = Some ''Hauptstr. 1''"
  "row_text (\<lambda>c. c) club_frame (club_columns ''zip'') 0 = Some ''12345''"
  "row_text (\<lambda>c. c) club_frame (club_columns ''city'') 0 = Some ''Berlin''"
  "row_text (\<lambda>c. c) club_frame (club_columns ''country'') 0 = None"
  "row_text (\<lambda>c. c) club_frame (club_columns ''street'') (Suc 0) = Some []"
  "row_text (\<lambda>c. c) club_frame (club_columns ''zip'') (Suc 0) = Some []"
  "row_text (\<lambda>c. c) club_frame (club_columns ''city'') (Suc 0) = Some []"
  "row_text (\<lambda>c. c) club_frame (club_columns ''country'') (Suc 0) = None"
  by (simp_all add: row_text_def col_or_empty_def iat_or_empty_def club_frame_def
      club_columns_def)

lemma club_addresses:
  "build_full_address (\<lambda>c. c) club_frame club_columns =
     Inr [''Hauptstr. 1, 12345 Berlin, Deutschland'', ''Deutschland'']"
proof -
  have n: "[0..<nrows club_frame] = [0, Suc 0]"
    by (simp add: club_frame_def upt_rec)
  show ?thesis
    unfolding build_full_address_collect n
    by (simp add: row_address_def club_texts country_value_def build_row_texts)
qed

text \<open>
  The sheet with the gap: the missing street of the second club makes the whole call
  raise \<^verbatim>\<open>TypeError\<close>, although the first row is complete.
\<close>

lemma gap_frame_raises:
  "build_full_address (\<lambda>c. c) gap_frame club_columns = Inl TypeError"
proof -
  have "Suc 0 < nrows gap_frame" by (simp add: gap_frame_def)
  moreover have "row_text (\<lambda>c. c) gap_frame (club_columns ''street'') (Suc 0) = None"
    by (simp add: row_text_def col_or_empty_def iat_or_empty_def gap_frame_def club_columns_def)
  ultimately show ?thesis by (intro build_full_address_raises) auto
qed


text \<open>
  C6, as stated, fails: the second row of the sheet has an empty street, zip and city and
  a blank country, and its address is \<^verbatim>\<open>Deutschland\<close>, not the empty string.
\<close>

theorem blank_row_counterexample:
  "row_text (\<lambda>c. c) club_frame (club_columns ''street'') (Suc 0) = Some []
   \<and> row_text (\<lambda>c. c) club_frame (club_columns ''zip'') (Suc 0) = Some []
   \<and> row_text (\<lambda>c. c) club_frame (club_columns ''city'') (Suc 0) = Some []
   \<and> row_text (\<lambda>c. c) club_frame (club_columns ''country'') (Suc 0) = None
   \<and> build_full_address (\<lambda>c. c) club_frame club_columns =
       Inr [''Hauptstr. 1, 12345 Berlin, Deutschland'', ''Deutschland'']
   \<and> [''Hauptstr. 1, 12345 Berlin, Deutschland'', ''Deutschland''] ! Suc 0 \<noteq> []"
  by (simp add: club_texts club_addresses)

text \<open>
  C6, amended.  Take a row in which street, zip and city are each absent or an empty text,
  and the country is absent, a missing value or an empty text.  The loop body builds the
  address \<^verbatim>\<open>Deutschland\<close> for it, the default country being the one segment left.  Whenever
  the call returns, this is the row's entry in the result, and the call returns when no
  street, zip or city of the sheet is a missing value.
\<close>

theorem blank_row_gives_default_country:
  assumes "i < nrows df"
      and "column_absent df (col_map ''street'')
             \<or> row_text cell_text df (col_map ''street'') i = Some []"
      and "column_absent df (col_map ''zip'')
             \<or> row_text cell_text df (col_map ''zip'') i = Some []"
      and "column_absent df (col_map ''city'')
             \<or> row_text cell_text df (col_map ''city'') i = Some []"
      and "column_absent df (col_map ''country'')
             \<or> row_text cell_text df (col_map ''country'') i = None
             \<or> row_text cell_text df (col_map ''country'') i = Some []"
  shows "row_address cell_text df col_map i = Inr ''Deutschland''
     \<and> (\<forall>full. build_full_address cell_text df col_map = Inr full \<longrightarrow>
           length full = nrows df \<and> full ! i = ''Deutschland'')
     \<and> ((\<forall>j < nrows df. row_text cell_text df (col_map ''street'') j \<noteq> None
             \<and> row_text cell_text df (col_map ''zip'') j \<noteq> None
             \<and> row_text cell_text df (col_map ''city'') j \<noteq> None)
        \<longrightarrow> (\<exists>full. build_full_address cell_text df col_map = Inr full))"
proof -
  from assms(2-4) have t:
    "row_text cell_text df (col_map ''street'') i = Some []"
    "row_text cell_text df (col_map ''zip'') i = Some []"
    "row_text cell_text df (col_map ''city'') i = Some []"
    using absent_row_text by blast+
  from assms(5) have k: "country_value cell_text df (col_map ''country'') i = []"
    by (rule blank_country_value)
  have r: "row_address cell_text df col_map i = Inr ''Deutschland''"
    by (simp add: row_address_def t k build_row_texts)
  have n: "length full = nrows df \<and> full ! i = ''Deutschland''"
    if "build_full_address cell_text df col_map = Inr full" for full
    using build_full_address_nth [OF that assms(1)] r by simp
  have e: "\<exists>full. build_full_address cell_text df col_map = Inr full"
    if "\<forall>j < nrows df. row_text cell_text df (col_map ''street'') j \<noteq> None
             \<and> row_text cell_text df (col_map ''zip'') j \<noteq> None
             \<and> row_text cell_text df (col_map ''city'') j \<noteq> None"
    using that by (rule build_full_address_returns)
  from r n e show ?thesis by blast
qed

theorem blank_row_gives_default_country_witness:
  "Suc 0 < nrows club_frame
   \<and> row_text (\<lambda>c. c) club_frame (club_columns ''street'') (Suc 0) = Some []
   \<and> row_text (\<lambda>c. c) club_frame (club_columns ''zip'') (Suc 0) = Some []
   \<and> row_text (\<lambda>c. c) club_frame (club_columns ''city'') (Suc 0) = Some []
   \<and> row_text (\<lambda>c. c) club_frame (club_columns ''country'') (Suc 0) = None
   \<and> build_full_address (\<lambda>c. c) club_frame club_columns =
       Inr [''Hauptstr. 1, 12345 Berlin, Deutschland'', ''Deutschland'']
   \<and> row_address (\<lambda>c. c) club_frame club_columns (Suc 0) = Inr ''Deutschland''"
proof -
  have h: "Suc 0 < nrows club_frame" by (simp add: club_frame_def)
  from blank_row_gives_default_country
         [where df = club_frame and i = "Suc 0" and col_map = club_columns
            and cell_text = "\<lambda>c. c"] h
  show ?thesis by (simp add: club_texts club_addresses)
qed

section \<open>Properties of the float operations\<close>

declare bit_length.simps [simp del]

lemma bit_length_le: "n < 2 ^ k \<Longrightarrow> bit_length n \<le> k"
proof (induction k arbitrary: n)
  case 0
  then have "n = 0" by simp
  then show ?case by (simp add: bit_length.simps)
next
  case (Suc k)
  show ?case
  proof (cases "n = 0")
    case True
    then show ?thesis by (simp add: bit_length.simps)
  next
    case False
    from Suc.prems have "n div 2 < 2 ^ k" by simp
    then have "bit_length (n div 2) \<le> k" by (rule Suc.IH)
    with False show ?thesis by (subst bit_length.simps) simp
  qed
qed

lemma round_half_even_of_int: "round_half_even (of_int z) = z"
  by (simp add: round_half_even_def)

lemma fl_of_int:
  assumes "\<bar>m\<bar> < 2 ^ 53"
  shows "fl (of_int m) = of_int m"
proof (cases "m = 0")
  case True
  then show ?thesis by (simp add: fl_def)
next
  case False
  define b where "b = bit_length (nat \<bar>m\<bar>)"
  define k where "k = 53 - b"
  have "nat \<bar>m\<bar> < 2 ^ 53" using assms by (simp add: nat_less_iff)
  then have b: "b \<le> 53" unfolding b_def by (rule bit_length_le)
  have one: "(1::rat) \<le> \<bar>of_int m\<bar>" using False by (simp flip: of_int_abs)
  have fl: "\<lfloor>\<bar>rat_of_int m\<bar>\<rfloor> = \<bar>m\<bar>" by (simp flip: of_int_abs)
  have "binade (of_int m) = int b - 1"
    using one by (simp add: binade_def Let_def fl b_def)
  then have e: "binade (of_int m) - 52 = - int k" using b by (simp add: k_def)
  have ulp: "(2::rat) powi (binade (of_int m) - 52) = inverse (2 ^ k)"
    unfolding e by (simp add: power_int_minus)
  have "rat_of_int m / inverse (2 ^ k) = of_int (m * 2 ^ k)" by (simp add: field_simps)
  then have "round_half_even (rat_of_int m / inverse (2 ^ k)) = m * 2 ^ k"
    by (simp only: round_half_even_of_int)
  with False show ?thesis
    by (simp add: fl_def Let_def ulp)
qed

lemma float_of_int_exact:
  assumes "\<bar>m\<bar> < 2 ^ 53"
  shows "float_of_int m = Inr (of_int m)"
proof -
  have "\<bar>rat_of_int m\<bar> = of_int \<bar>m\<bar>" by simp
  also have "\<dots> < of_int (2 ^ 53)" using assms by (simp only: of_int_less_iff)
  also have "\<dots> < (2::rat) ^ 1024" by simp
  finally have "\<bar>rat_of_int m\<bar> < 2 ^ 1024" .
  then show ?thesis by (simp add: float_of_int_def fl_of_int [OF assms])
qed

text \<open>The values of the examples, computed.\<close>

lemma fl_examples:
  "fl 1000 = 1000" "fl 1609 = 1609" "fl 1500 = 1500" "fl 600 = 600" "fl 1 = 1"
  "fl (3 / 2) = 3 / 2" "fl 10 = 10"
  by code_simp+

lemma float_of_int_examples:
  "float_of_int 1000 = Inr 1000" "float_of_int 1609 = Inr 1609"
  "float_of_int 1500 = Inr 1500" "float_of_int 600 = Inr 600"
  by (simp_all add: float_of_int_def fl_examples)

lemma round_half_even_examples:
  "round_half_even 100 = 100" "round_half_even 150 = 150"
  by (simp_all add: round_half_even_def)

lemma km_metric_1000: "km_cell ''metric'' (Some 1000) = Inr (Some 1)"
  by (simp add: km_cell_def float_of_int_examples float_div_def py_round_def fl_examples
      round_half_even_examples)

lemma km_metric_1500: "km_cell ''metric'' (Some 1500) = Inr (Some (3 / 2))"
  by (simp add: km_cell_def float_of_int_examples float_div_def py_round_def fl_examples
      round_half_even_examples)

lemma minutes_600: "minutes_cell (Some 600) = Inr (Some 10)"
  by (simp add: minutes_cell_def float_of_int_examples float_div_def py_round_def fl_examples
      round_half_even_examples)

lemma meters_per_mile_value: "meters_per_mile = 1769492441091539 / 1099511627776"
  unfolding meters_per_mile_def by code_simp

lemma imperial_quotient:
  "float_div 1609 meters_per_mile = 2251318487669239 / 2251799813685248"
  unfolding float_div_def meters_per_mile_value by code_simp

lemma imperial_round:
  "py_round (2251318487669239 / 2251799813685248) 2 = 1"
  by code_simp

lemma km_imperial_1609: "km_cell ''imperial'' (Some 1609) = Inr (Some 1)"
  by (simp add: km_cell_def float_of_int_examples imperial_quotient imperial_round)


section \<open>Properties of the matrix assembly\<close>

lemma square_empty_frame: "square n (empty_frame n)"
  by (simp add: square_def empty_frame_def)

lemma iat_set_Inr:
  assumes "iat_set frame i j v = Inr frame'" and "square n frame"
  shows "i < n \<and> j < n \<and> square n frame' \<and> frame' ! i ! j = v
     \<and> (\<forall>i' j'. (i', j') \<noteq> (i, j) \<longrightarrow> frame' ! i' ! j' = frame ! i' ! j')"
proof -
  from assms have i: "i < n" and j: "j < n" and eq: "frame' = frame[i := (frame ! i)[j := v]]"
    by (auto simp: iat_set_def square_def split: if_splits)
  have len: "length frame = n" and rows: "\<forall>i < n. length (frame ! i) = n"
    using assms(2) by (simp_all add: square_def)
  have sq: "square n frame'"
    unfolding square_def
  proof (intro conjI allI impI)
    show "length frame' = n" by (simp add: eq len)
  next
    fix a
    assume a: "a < n"
    show "length (frame' ! a) = n"
    proof (cases "a = i")
      case True
      then show ?thesis using i len rows by (simp add: eq)
    next
      case False
      then show ?thesis using a rows by (simp add: eq)
    qed
  qed
  have v: "frame' ! i ! j = v"
    unfolding eq using i j len rows by simp
  have other: "frame' ! i' ! j' = frame ! i' ! j'" if "(i', j') \<noteq> (i, j)" for i' j'
  proof (cases "i' = i")
    case True
    with that have "j' \<noteq> j" by simp
    with True show ?thesis unfolding eq using i len by simp
  next
    case False
    then show ?thesis unfolding eq by simp
  qed
  from i j sq v other show ?thesis by blast
qed

lemma iat_set_total:
  "square n frame \<Longrightarrow> i < n \<Longrightarrow> j < n \<Longrightarrow> \<exists>frame'. iat_set frame i j v = Inr frame'"
  by (simp add: iat_set_def square_def)

lemma fill_cell_Inr:
  assumes "fill_cell units res i origin j dest M = Inr M'" and "shaped n M"
  shows "i < n \<and> j < n \<and> shaped n M'
     \<and> cell_value units res origin dest = Inr (cell M' i j)
     \<and> (\<forall>i' j'. (i', j') \<noteq> (i, j) \<longrightarrow> cell M' i' j' = cell M i' j')"
proof -
  let ?r = "lookup_pair res origin dest"
  from assms(1) obtain km D mins T S where
    km: "km_cell units (distance_m ?r) = Inr km" and
    D: "iat_set (dist_km M) i j km = Inr D" and
    mins: "minutes_cell (duration_s ?r) = Inr mins" and
    T: "iat_set (time_min M) i j mins = Inr T" and
    S: "iat_set (status_tbl M) i j (Some (status ?r)) = Inr S" and
    M': "M' = \<lparr>dist_km = D, time_min = T, status_tbl = S\<rparr>"
    by (auto simp: fill_cell_def Let_def split: sum.splits)
  from assms(2) have sq: "square n (dist_km M)" "square n (time_min M)" "square n (status_tbl M)"
    by (simp_all add: shaped_def)
  note d = iat_set_Inr [OF D sq(1)] and t = iat_set_Inr [OF T sq(2)] and s = iat_set_Inr [OF S sq(3)]
  have 1: "shaped n M'" using d t s by (simp add: shaped_def M')
  have 2: "cell_value units res origin dest = Inr (cell M' i j)"
    using d t s by (simp add: cell_value_def Let_def km mins cell_def M')
  have 3: "cell M' i' j' = cell M i' j'" if "(i', j') \<noteq> (i, j)" for i' j'
    using d t s that by (simp add: cell_def M')
  from d 1 2 3 show ?thesis by blast
qed

lemma for_each_Cons_Inr:
  "for_each body (x # xs) s = Inr s' \<longleftrightarrow>
   (\<exists>s1. body x s = Inr s1 \<and> for_each body xs s1 = Inr s')"
  by (auto split: sum.splits)

lemma fill_row_from:
  assumes "for_each (\<lambda>jd. fill_cell units res i origin (fst jd) (snd jd)) (enumerate k ds) M
             = Inr M'"
      and "shaped n M"
  shows "shaped n M'
     \<and> (\<forall>j < length ds. cell_value units res origin (ds ! j) = Inr (cell M' i (k + j)))
     \<and> (\<forall>i' j'. i' \<noteq> i \<or> j' < k \<or> k + length ds \<le> j' \<longrightarrow> cell M' i' j' = cell M i' j')"
  using assms
proof (induction ds arbitrary: k M)
  case Nil
  then show ?case by simp
next
  case (Cons d ds)
  from Cons.prems(1) obtain M1 where
    first: "fill_cell units res i origin k d M = Inr M1" and
    rest: "for_each (\<lambda>jd. fill_cell units res i origin (fst jd) (snd jd))
             (enumerate (Suc k) ds) M1 = Inr M'"
    by (auto split: sum.splits)
  note f = fill_cell_Inr [OF first Cons.prems(2)]
  from f have sh1: "shaped n M1" by blast
  note ih = Cons.IH [OF rest sh1]
  have a: "shaped n M'" using ih by blast
  have b: "cell_value units res origin ((d # ds) ! j) = Inr (cell M' i (k + j))"
    if "j < length (d # ds)" for j
  proof (cases j)
    case 0
    have "cell M' i k = cell M1 i k" using ih by simp
    with f 0 show ?thesis by simp
  next
    case (Suc j0)
    with that have "j0 < length ds" by simp
    with ih have "cell_value units res origin (ds ! j0) = Inr (cell M' i (Suc k + j0))" by blast
    with Suc show ?thesis by simp
  qed
  have c: "cell M' i' j' = cell M i' j'"
    if "i' \<noteq> i \<or> j' < k \<or> k + length (d # ds) \<le> j'" for i' j'
  proof -
    from that have "i' \<noteq> i \<or> j' < Suc k \<or> Suc k + length ds \<le> j'" by auto
    with ih have "cell M' i' j' = cell M1 i' j'" by blast
    moreover from that have "(i', j') \<noteq> (i, k)" by auto
    with f have "cell M1 i' j' = cell M i' j'" by blast
    ultimately show ?thesis by simp
  qed
  from a b c show ?case by blast
qed

lemma fill_rows_from:
  assumes "for_each (fill_row units res ds) (enumerate k os) M = Inr M'"
      and "shaped n M"
  shows "shaped n M'
     \<and> (\<forall>i < length os. \<forall>j < length ds.
           cell_value units res (os ! i) (ds ! j) = Inr (cell M' (k + i) j))
     \<and> (\<forall>i' j'. i' < k \<or> k + length os \<le> i' \<or> length ds \<le> j' \<longrightarrow>
           cell M' i' j' = cell M i' j')"
  using assms
proof (induction os arbitrary: k M)
  case Nil
  then show ?case by simp
next
  case (Cons ori os)
  from Cons.prems(1) obtain M1 where
    first: "fill_row units res ds (k, ori) M = Inr M1" and
    rest: "for_each (fill_row units res ds) (enumerate (Suc k) os) M1 = Inr M'"
    by (auto split: sum.splits)
  from first have first': "for_each (\<lambda>jd. fill_cell units res k ori (fst jd) (snd jd))
      (enumerate 0 ds) M = Inr M1"
    by (simp add: fill_row_def)
  note f = fill_row_from [OF first' Cons.prems(2)]
  from f have sh1: "shaped n M1" by blast
  note ih = Cons.IH [OF rest sh1]
  have a: "shaped n M'" using ih by blast
  have b: "cell_value units res ((ori # os) ! i) (ds ! j) = Inr (cell M' (k + i) j)"
    if "i < length (ori # os)" and "j < length ds" for i j
  proof (cases i)
    case 0
    have "cell M' k j = cell M1 k j" using ih by simp
    moreover have "cell_value units res ori (ds ! j) = Inr (cell M1 k (0 + j))"
      using f that(2) by blast
    ultimately show ?thesis using 0 by simp
  next
    case (Suc i0)
    with that have "i0 < length os" by simp
    with ih that(2) have "cell_value units res (os ! i0) (ds ! j) = Inr (cell M' (Suc k + i0) j)"
      by blast
    with Suc show ?thesis by simp
  qed
  have c: "cell M' i' j' = cell M i' j'"
    if "i' < k \<or> k + length (ori # os) \<le> i' \<or> length ds \<le> j'" for i' j'
  proof -
    from that have "i' < Suc k \<or> Suc k + length os \<le> i' \<or> length ds \<le> j'" by auto
    with ih have "cell M' i' j' = cell M1 i' j'" by blast
    moreover from that have "i' \<noteq> k \<or> j' < 0 \<or> 0 + length ds \<le> j'" by auto
    with f have "cell M1 i' j' = cell M i' j'" by blast
    ultimately show ?thesis by simp
  qed
  from a b c show ?case by blast
qed

lemma fill_matrices_Inr:
  assumes "fill_matrices units res os ds M = Inr M'" and "shaped n M"
  shows "shaped n M'
     \<and> (\<forall>i < length os. \<forall>j < length ds.
           cell_value units res (os ! i) (ds ! j) = Inr (cell M' i j))"
  using fill_rows_from [of units res ds 0 os M M' n] assms
  by (simp add: fill_matrices_def)

lemma set_diagonal_cell_Inr:
  assumes "set_diagonal_cell i M = Inr M'" and "shaped n M"
  shows "shaped n M' \<and> cell M' i i = (Some 0, Some 0, Some ''OK'')
     \<and> (\<forall>i' j'. (i', j') \<noteq> (i, i) \<longrightarrow> cell M' i' j' = cell M i' j')"
proof -
  from assms(1) obtain D T S where
    D: "iat_set (dist_km M) i i (Some 0) = Inr D" and
    T: "iat_set (time_min M) i i (Some 0) = Inr T" and
    S: "iat_set (status_tbl M) i i (Some ''OK'') = Inr S" and
    M': "M' = \<lparr>dist_km = D, time_min = T, status_tbl = S\<rparr>"
    by (auto simp: set_diagonal_cell_def split: sum.splits)
  from assms(2) have sq: "square n (dist_km M)" "square n (time_min M)" "square n (status_tbl M)"
    by (simp_all add: shaped_def)
  note d = iat_set_Inr [OF D sq(1)] and t = iat_set_Inr [OF T sq(2)] and s = iat_set_Inr [OF S sq(3)]
  have 1: "shaped n M'" using d t s by (simp add: shaped_def M')
  have 2: "cell M' i i = (Some 0, Some 0, Some ''OK'')"
    using d t s by (simp add: cell_def M')
  have 3: "cell M' i' j' = cell M i' j'" if "(i', j') \<noteq> (i, i)" for i' j'
    using d t s that by (simp add: cell_def M')
  from 1 2 3 show ?thesis by blast
qed

lemma set_diagonal_upto:
  assumes "for_each set_diagonal_cell [0..<m] M = Inr M'" and "shaped n M"
  shows "shaped n M'
     \<and> (\<forall>i < m. cell M' i i = (Some 0, Some 0, Some ''OK''))
     \<and> (\<forall>i' j'. i' \<noteq> j' \<or> m \<le> i' \<longrightarrow> cell M' i' j' = cell M i' j')"
  using assms
proof (induction m arbitrary: M')
  case 0
  then show ?case by simp
next
  case (Suc m)
  from Suc.prems(1) obtain M1 where
    before: "for_each set_diagonal_cell [0..<m] M = Inr M1" and
    last: "set_diagonal_cell m M1 = Inr M'"
    by (auto simp: for_each_snoc_Inr)
  note ih = Suc.IH [OF before Suc.prems(2)]
  from ih have sh1: "shaped n M1" by blast
  note l = set_diagonal_cell_Inr [OF last sh1]
  have a: "shaped n M'" using l by blast
  have b: "cell M' i i = (Some 0, Some 0, Some ''OK'')" if "i < Suc m" for i
  proof (cases "i = m")
    case True
    with l show ?thesis by blast
  next
    case False
    with that have "i < m" by simp
    with ih have "cell M1 i i = (Some 0, Some 0, Some ''OK'')" by blast
    moreover from False have "(i, i) \<noteq> (m, m)" by simp
    with l have "cell M' i i = cell M1 i i" by blast
    ultimately show ?thesis by simp
  qed
  have c: "cell M' i' j' = cell M i' j'" if "i' \<noteq> j' \<or> Suc m \<le> i'" for i' j'
  proof -
    from that have "(i', j') \<noteq> (m, m)" by auto
    with l have "cell M' i' j' = cell M1 i' j'" by blast
    moreover from that have "i' \<noteq> j' \<or> m \<le> i'" by auto
    with ih have "cell M1 i' j' = cell M i' j'" by blast
    ultimately show ?thesis by simp
  qed
  from a b c show ?case by blast
qed

lemma assemble_matrices_Inr:
  assumes "assemble_matrices units res names toks = Inr M"
  shows "\<exists>M1. filled_matrices units res names toks = Inr M1
     \<and> (\<forall>i < length toks. \<forall>j < length toks.
           cell_value units res (toks ! i) (toks ! j) = Inr (cell M1 i j))
     \<and> (\<forall>i < length names. cell M i i = (Some 0, Some 0, Some ''OK''))
     \<and> (\<forall>i j. i \<noteq> j \<longrightarrow> cell M i j = cell M1 i j)"
proof -
  let ?n = "length names"
  let ?M0 = "\<lparr>dist_km = empty_frame ?n, time_min = empty_frame ?n, status_tbl = empty_frame ?n\<rparr>"
  from assms obtain M1 where
    filled: "filled_matrices units res names toks = Inr M1" and
    diag: "set_diagonal names M1 = Inr M"
    by (auto simp: assemble_matrices_def split: sum.splits)
  from filled have fill: "fill_matrices units res toks toks ?M0 = Inr M1"
    by (simp add: filled_matrices_def Let_def)
  have sh0: "shaped ?n ?M0" by (simp add: shaped_def square_empty_frame)
  note f = fill_matrices_Inr [OF fill sh0]
  from f have sh1: "shaped ?n M1" by blast
  from diag have "for_each set_diagonal_cell [0..<?n] M1 = Inr M" by (simp add: set_diagonal_def)
  note d = set_diagonal_upto [OF this sh1]
  from filled f d show ?thesis by blast
qed

lemma cell_value_missing:
  "res (origin, dest) = None \<Longrightarrow> cell_value units res origin dest = Inr (None, None, Some ''N/A'')"
  by (simp add: cell_value_def lookup_pair_def km_cell_def minutes_cell_def)

lemma km_cell_Some:
  assumes "km_cell units (Some m) = Inr v"
  shows "\<exists>x. float_of_int m = Inr x
     \<and> v = Some (py_round (if units = ''metric'' then float_div x 1000
                            else float_div x meters_per_mile) 2)"
  using assms by (auto simp: km_cell_def Let_def split: sum.splits)

lemma minutes_cell_Some:
  assumes "minutes_cell (Some s) = Inr v"
  shows "\<exists>x. float_of_int s = Inr x \<and> v = Some (py_round (float_div x 60) 1)"
  using assms by (auto simp: minutes_cell_def Let_def split: sum.splits)

lemma cell_value_Inr:
  assumes "cell_value units res origin dest = Inr (d, t, s)"
  shows "km_cell units (distance_m (lookup_pair res origin dest)) = Inr d
     \<and> minutes_cell (duration_s (lookup_pair res origin dest)) = Inr t"
  using assms by (auto simp: cell_value_def Let_def split: sum.splits)

lemma cell_None_examples:
  "km_cell units None = Inr None" "minutes_cell None = Inr None"
  by (simp_all add: km_cell_def minutes_cell_def)

lemma sample_fill:
  "filled_matrices ''metric'' sample_results [''TSV'', ''SVB''] [''A'', ''B''] = Inr sample_filled"
  by (simp add: filled_matrices_def fill_matrices_def fill_row_def fill_cell_def
      lookup_pair_def sample_results_def sample_filled_def iat_set_def empty_frame_def
      enumerate_eq_zip upt_rec km_metric_1000 km_metric_1500 minutes_600 cell_None_examples
      Let_def)

lemma sample_assembly:
  "assemble_matrices ''metric'' sample_results [''TSV'', ''SVB''] [''A'', ''B''] =
     Inr sample_matrices"
  by (simp add: assemble_matrices_def sample_fill sample_filled_def sample_matrices_def
      set_diagonal_def set_diagonal_cell_def iat_set_def upt_rec)

text \<open>
  C1.  When the assembly yields its matrices, every diagonal cell, for each index of the
  name list, holds the distance 0.0, the duration 0.0 and the status \<^verbatim>\<open>OK\<close>, whatever
  the result map holds for the pair of a token with itself.
\<close>

theorem diagonal_cells:
  assumes "assemble_matrices units res names origin_tokens = Inr M"
      and "i < length names"
  shows "dist_km M ! i ! i = Some 0 \<and> time_min M ! i ! i = Some 0
     \<and> status_tbl M ! i ! i = Some ''OK''"
proof -
  from assemble_matrices_Inr [OF assms(1)] assms(2)
  have "cell M i i = (Some 0, Some 0, Some ''OK'')" by blast
  then show ?thesis by (simp add: cell_def)
qed

theorem diagonal_cells_witness:
  "assemble_matrices ''metric'' sample_results [''TSV'', ''SVB''] [''A'', ''B''] =
     Inr sample_matrices
   \<and> sample_results (''A'', ''A'') =
       Some \<lparr>distance_m = Some 1000, duration_s = Some 600, status = ''OK''\<rparr>
   \<and> sample_results (''B'', ''B'') =
       Some \<lparr>distance_m = None, duration_s = None, status = ''NOT_FOUND''\<rparr>
   \<and> dist_km sample_matrices ! 0 ! 0 = Some 0
   \<and> time_min sample_matrices ! 0 ! 0 = Some 0
   \<and> status_tbl sample_matrices ! 0 ! 0 = Some ''OK''
   \<and> dist_km sample_matrices ! 1 ! 1 = Some 0
   \<and> time_min sample_matrices ! 1 ! 1 = Some 0
   \<and> status_tbl sample_matrices ! 1 ! 1 = Some ''OK''"
proof -
  have a: "(0::nat) < length [''TSV'', ''SVB'']" and b: "(1::nat) < length [''TSV'', ''SVB'']"
    by simp_all
  have r: "sample_results (''A'', ''A'') =
       Some \<lparr>distance_m = Some 1000, duration_s = Some 600, status = ''OK''\<rparr>"
    "sample_results (''B'', ''B'') =
       Some \<lparr>distance_m = None, duration_s = None, status = ''NOT_FOUND''\<rparr>"
    by (simp_all add: sample_results_def)
  from diagonal_cells [OF sample_assembly a] diagonal_cells [OF sample_assembly b]
  show ?thesis by (simp add: sample_assembly r)
qed

text \<open>
  C8.  In an assembly that yields its matrices, the fill loops leave, for every pair of
  positions whose token pair has no entry in the result map, a distance cell and a
  duration cell that hold nothing and the status \<^verbatim>\<open>N/A\<close>.  Off the diagonal these are
  the cells of the final matrices as well (on the diagonal the later loop overwrites them).
\<close>

theorem missing_pair_cells:
  assumes "assemble_matrices units res names origin_tokens = Inr M"
      and "i < length origin_tokens" and "j < length origin_tokens"
      and "res (origin_tokens ! i, origin_tokens ! j) = None"
  shows "\<exists>M1. filled_matrices units res names origin_tokens = Inr M1
     \<and> dist_km M1 ! i ! j = None \<and> time_min M1 ! i ! j = None
     \<and> status_tbl M1 ! i ! j = Some ''N/A''
     \<and> (i \<noteq> j \<longrightarrow> dist_km M ! i ! j = None \<and> time_min M ! i ! j = None
                    \<and> status_tbl M ! i ! j = Some ''N/A'')"
proof -
  from assemble_matrices_Inr [OF assms(1)] obtain M1 where
    filled: "filled_matrices units res names origin_tokens = Inr M1" and
    cells: "\<forall>i < length origin_tokens. \<forall>j < length origin_tokens.
           cell_value units res (origin_tokens ! i) (origin_tokens ! j) = Inr (cell M1 i j)" and
    off: "\<forall>i j. i \<noteq> j \<longrightarrow> cell M i j = cell M1 i j"
    by blast
  from cells assms(2,3)
  have "cell_value units res (origin_tokens ! i) (origin_tokens ! j) = Inr (cell M1 i j)"
    by blast
  with cell_value_missing [where res = res and origin = "origin_tokens ! i"
      and dest = "origin_tokens ! j" and units = units, OF assms(4)] have c: "cell M1 i j = (None, None, Some ''N/A'')"
    by simp
  then have 1: "dist_km M1 ! i ! j = None \<and> time_min M1 ! i ! j = None
     \<and> status_tbl M1 ! i ! j = Some ''N/A''"
    by (simp add: cell_def)
  have 2: "i \<noteq> j \<longrightarrow> dist_km M ! i ! j = None \<and> time_min M ! i ! j = None
                    \<and> status_tbl M ! i ! j = Some ''N/A''"
  proof
    assume "i \<noteq> j"
    with off c have "cell M i j = (None, None, Some ''N/A'')" by simp
    then show "dist_km M ! i ! j = None \<and> time_min M ! i ! j = None
                    \<and> status_tbl M ! i ! j = Some ''N/A''"
      by (simp add: cell_def)
  qed
  from filled 1 2 show ?thesis by blast
qed

theorem missing_pair_cells_witness:
  "assemble_matrices ''metric'' sample_results [''TSV'', ''SVB''] [''A'', ''B''] =
     Inr sample_matrices
   \<and> sample_results ([''A'', ''B''] ! 1, [''A'', ''B''] ! 0) = None
   \<and> filled_matrices ''metric'' sample_results [''TSV'', ''SVB''] [''A'', ''B''] = Inr sample_filled
   \<and> dist_km sample_filled ! 1 ! 0 = None \<and> time_min sample_filled ! 1 ! 0 = None
   \<and> status_tbl sample_filled ! 1 ! 0 = Some ''N/A''
   \<and> dist_km sample_matrices ! 1 ! 0 = None \<and> time_min sample_matrices ! 1 ! 0 = None
   \<and> status_tbl sample_matrices ! 1 ! 0 = Some ''N/A''"
proof -
  have a: "(1::nat) < length [''A'', ''B'']" and b: "(0::nat) < length [''A'', ''B'']"
    by simp_all
  have c: "sample_results ([''A'', ''B''] ! 1, [''A'', ''B''] ! 0) = None"
    by (simp add: sample_results_def)
  from missing_pair_cells [OF sample_assembly a b c]
  show ?thesis using c by (simp add: sample_assembly sample_fill)
qed


text \<open>
  C7.  In an assembly that yields its matrices, take a pair of positions whose token pair
  has an entry in the result map.  If the entry has a distance of \<open>m\<close> metres, the fill
  loops write \<^verbatim>\<open>round(m / 1000.0, 2)\<close> to the distance cell when the units are
  \<^verbatim>\<open>metric\<close> and \<^verbatim>\<open>round(m / 1609.344, 2)\<close> otherwise, so for \<^verbatim>\<open>imperial\<close>; if it has a
  duration of \<open>s\<close> seconds, they write \<^verbatim>\<open>round(s / 60.0, 1)\<close> to the duration cell.  Here
  the integer is first made a float (exactly, below \<open>2\<^sup>5\<^sup>3\<close>), and division and rounding
  are those of binary64 floats.  Off the diagonal the final matrices hold the same values.
  For 1000 m and \<^verbatim>\<open>metric\<close> the cell is 1.0, for 1609 m and \<^verbatim>\<open>imperial\<close> it is 1.0.
\<close>

theorem unit_conversion:
  assumes "assemble_matrices units res names origin_tokens = Inr M"
      and "i < length origin_tokens" and "j < length origin_tokens"
      and "res (origin_tokens ! i, origin_tokens ! j) = Some r"
  shows "\<exists>M1. filled_matrices units res names origin_tokens = Inr M1
     \<and> (\<forall>m. distance_m r = Some m \<longrightarrow>
          (\<exists>x. float_of_int m = Inr x \<and> (\<bar>m\<bar> < 2 ^ 53 \<longrightarrow> x = of_int m)
             \<and> dist_km M1 ! i ! j =
                 Some (py_round (if units = ''metric'' then float_div x 1000
                                 else float_div x meters_per_mile) 2)
             \<and> (i \<noteq> j \<longrightarrow> dist_km M ! i ! j = dist_km M1 ! i ! j)))
     \<and> (\<forall>s. duration_s r = Some s \<longrightarrow>
          (\<exists>x. float_of_int s = Inr x \<and> (\<bar>s\<bar> < 2 ^ 53 \<longrightarrow> x = of_int s)
             \<and> time_min M1 ! i ! j = Some (py_round (float_div x 60) 1)
             \<and> (i \<noteq> j \<longrightarrow> time_min M ! i ! j = time_min M1 ! i ! j)))
     \<and> km_cell ''metric'' (Some 1000) = Inr (Some 1)
     \<and> km_cell ''imperial'' (Some 1609) = Inr (Some 1)"
proof -
  from assemble_matrices_Inr [OF assms(1)] obtain M1 where
    filled: "filled_matrices units res names origin_tokens = Inr M1" and
    cells: "\<forall>i < length origin_tokens. \<forall>j < length origin_tokens.
           cell_value units res (origin_tokens ! i) (origin_tokens ! j) = Inr (cell M1 i j)" and
    off: "\<forall>i j. i \<noteq> j \<longrightarrow> cell M i j = cell M1 i j"
    by blast
  have look: "lookup_pair res (origin_tokens ! i) (origin_tokens ! j) = r"
    using assms(4) by (simp add: lookup_pair_def)
  from cells assms(2,3)
  have "cell_value units res (origin_tokens ! i) (origin_tokens ! j)
      = Inr (dist_km M1 ! i ! j, time_min M1 ! i ! j, status_tbl M1 ! i ! j)"
    by (simp add: cell_def)
  from cell_value_Inr [OF this]
  have km: "km_cell units (distance_m r) = Inr (dist_km M1 ! i ! j)"
    and mins: "minutes_cell (duration_s r) = Inr (time_min M1 ! i ! j)"
    by (simp_all add: look)
  have same: "i \<noteq> j \<longrightarrow> dist_km M ! i ! j = dist_km M1 ! i ! j
      \<and> time_min M ! i ! j = time_min M1 ! i ! j"
  proof
    assume "i \<noteq> j"
    with off have "cell M i j = cell M1 i j" by blast
    then show "dist_km M ! i ! j = dist_km M1 ! i ! j
      \<and> time_min M ! i ! j = time_min M1 ! i ! j"
      by (simp add: cell_def)
  qed
  have d: "\<exists>x. float_of_int m = Inr x \<and> (\<bar>m\<bar> < 2 ^ 53 \<longrightarrow> x = of_int m)
             \<and> dist_km M1 ! i ! j =
                 Some (py_round (if units = ''metric'' then float_div x 1000
                                 else float_div x meters_per_mile) 2)
             \<and> (i \<noteq> j \<longrightarrow> dist_km M ! i ! j = dist_km M1 ! i ! j)"
    if "distance_m r = Some m" for m
  proof -
    from km that have "km_cell units (Some m) = Inr (dist_km M1 ! i ! j)" by simp
    from km_cell_Some [OF this] obtain x where
      x: "float_of_int m = Inr x" and
      v: "dist_km M1 ! i ! j =
                 Some (py_round (if units = ''metric'' then float_div x 1000
                                 else float_div x meters_per_mile) 2)"
      by blast
    have "\<bar>m\<bar> < 2 ^ 53 \<longrightarrow> x = of_int m"
      using x float_of_int_exact [of m] by auto
    with x v same show ?thesis by blast
  qed
  have t: "\<exists>x. float_of_int s = Inr x \<and> (\<bar>s\<bar> < 2 ^ 53 \<longrightarrow> x = of_int s)
             \<and> time_min M1 ! i ! j = Some (py_round (float_div x 60) 1)
             \<and> (i \<noteq> j \<longrightarrow> time_min M ! i ! j = time_min M1 ! i ! j)"
    if "duration_s r = Some s" for s
  proof -
    from mins that have "minutes_cell (Some s) = Inr (time_min M1 ! i ! j)" by simp
    from minutes_cell_Some [OF this] obtain x where
      x: "float_of_int s = Inr x" and
      v: "time_min M1 ! i ! j = Some (py_round (float_div x 60) 1)"
      by blast
    have "\<bar>s\<bar> < 2 ^ 53 \<longrightarrow> x = of_int s"
      using x float_of_int_exact [of s] by auto
    with x v same show ?thesis by blast
  qed
  from filled d t km_metric_1000 km_imperial_1609 show ?thesis by blast
qed

theorem unit_conversion_witness:
  "assemble_matrices ''metric'' sample_results [''TSV'', ''SVB''] [''A'', ''B''] =
     Inr sample_matrices
   \<and> sample_results ([''A'', ''B''] ! 0, [''A'', ''B''] ! 1) =
       Some \<lparr>distance_m = Some 1500, duration_s = Some 600, status = ''OK''\<rparr>
   \<and> dist_km sample_matrices ! 0 ! 1 = Some (py_round (float_div 1500 1000) 2)
   \<and> time_min sample_matrices ! 0 ! 1 = Some (py_round (float_div 600 60) 1)
   \<and> dist_km sample_matrices ! 0 ! 1 = Some (3 / 2)
   \<and> time_min sample_matrices ! 0 ! 1 = Some 10"
proof -
  have a: "(0::nat) < length [''A'', ''B'']" and b: "(1::nat) < length [''A'', ''B'']"
    by simp_all
  have c: "sample_results ([''A'', ''B''] ! 0, [''A'', ''B''] ! 1) =
       Some \<lparr>distance_m = Some 1500, duration_s = Some 600, status = ''OK''\<rparr>"
    by (simp add: sample_results_def)
  have v: "dist_km sample_matrices ! 0 ! 1 = Some (3 / 2)"
    "time_min sample_matrices ! 0 ! 1 = Some 10"
    "dist_km sample_filled ! 0 ! 1 = Some (3 / 2)"
    "time_min sample_filled ! 0 ! 1 = Some 10"
    by (simp_all add: sample_matrices_def sample_filled_def)
  from unit_conversion [OF sample_assembly a b c]
  show ?thesis using c v
    by (auto simp: sample_assembly sample_fill float_of_int_examples)
qed

section \<open>Failures of single requests in the batch distance client\<close>

lemma mark_failed_inner:
  "fold (\<lambda>dest r. r((origin, dest) \<mapsto> v)) dc res k =
     (if k \<in> {origin} \<times> set dc then Some v else res k)"
  by (induction dc arbitrary: res) auto

lemma mark_failed_apply:
  "mark_failed oc dc msg res k =
     (if k \<in> set oc \<times> set dc then Some (error_result msg) else res k)"
  unfolding mark_failed_def
  by (induction oc arbitrary: res) (auto simp: mark_failed_inner)

lemma record_elem_Inr:
  assumes "record_elem oc dc i j e res = Inr res'"
  shows "i < length oc \<and> j < length dc \<and> res' = res((oc ! i, dc ! j) \<mapsto> elem_result e)"
  using assms by (auto simp: record_elem_def split: if_splits)

lemma record_elem_readable:
  assumes "i < length oc" and "j < length dc" and "readable_elem e"
  shows "record_elem oc dc i j e res = Inr (res((oc ! i, dc ! j) \<mapsto> elem_result e))"
  using assms by (auto simp: record_elem_def readable_elem_def)

lemma record_row_outside:
  assumes "record_row oc dc i j es res = (m, res')" and "k \<notin> set oc \<times> set dc"
  shows "res' k = res k"
  using assms
proof (induction es arbitrary: j res)
  case Nil
  then show ?case by simp
next
  case (Cons e es)
  show ?case
  proof (cases "record_elem oc dc i j e res")
    case (Inl msg)
    with Cons.prems show ?thesis by simp
  next
    case (Inr res1)
    from record_elem_Inr [OF Inr] have
      "i < length oc" "j < length dc" and r1: "res1 = res((oc ! i, dc ! j) \<mapsto> elem_result e)"
      by simp_all
    then have "(oc ! i, dc ! j) \<in> set oc \<times> set dc" by simp
    with Cons.prems(2) have "k \<noteq> (oc ! i, dc ! j)" by auto
    then have "res1 k = res k" by (simp add: r1)
    moreover from Cons.prems(1) Inr have "record_row oc dc i (Suc j) es res1 = (m, res')" by simp
    then have "res' k = res1 k" using Cons.prems(2) by (rule Cons.IH)
    ultimately show ?thesis by simp
  qed
qed

lemma record_rows_outside:
  assumes "record_rows oc dc i rows res = (m, res')" and "k \<notin> set oc \<times> set dc"
  shows "res' k = res k"
  using assms
proof (induction rows arbitrary: i res)
  case Nil
  then show ?case by simp
next
  case (Cons row rows)
  obtain m1 res1 where r: "record_row oc dc i 0 row res = (m1, res1)"
    by (cases "record_row oc dc i 0 row res")
  from record_row_outside [OF r Cons.prems(2)] have 1: "res1 k = res k" .
  show ?case
  proof (cases m1)
    case None
    with Cons.prems(1) r have "record_rows oc dc (Suc i) rows res1 = (m, res')" by simp
    then have "res' k = res1 k" using Cons.prems(2) by (rule Cons.IH)
    with 1 show ?thesis by simp
  next
    case (Some msg)
    with Cons.prems(1) r have "res' = res1" by simp
    with 1 show ?thesis by simp
  qed
qed

lemma record_row_readable:
  assumes "i < length oc" and "j + length es \<le> length dc" and "list_all readable_elem es"
      and "distinct dc"
  shows "\<exists>res'. record_row oc dc i j es res = (None, res')
     \<and> (\<forall>j' < length es. res' (oc ! i, dc ! (j + j')) = Some (elem_result (es ! j')))
     \<and> (\<forall>k. (\<forall>j' < length es. k \<noteq> (oc ! i, dc ! (j + j'))) \<longrightarrow> res' k = res k)"
  using assms(2,3)
proof (induction es arbitrary: j res)
  case Nil
  then show ?case by simp
next
  case (Cons e es)
  let ?res1 = "res((oc ! i, dc ! j) \<mapsto> elem_result e)"
  from Cons.prems have j: "j < length dc" and e: "readable_elem e"
    and j': "Suc j + length es \<le> length dc" and es: "list_all readable_elem es"
    by simp_all
  have first: "record_elem oc dc i j e res = Inr ?res1"
    using assms(1) j e by (rule record_elem_readable)
  from Cons.IH [OF j' es, of ?res1] obtain res' where
    run: "record_row oc dc i (Suc j) es ?res1 = (None, res')" and
    hit: "\<forall>j' < length es. res' (oc ! i, dc ! (Suc j + j')) = Some (elem_result (es ! j'))" and
    miss: "\<forall>k. (\<forall>j' < length es. k \<noteq> (oc ! i, dc ! (Suc j + j'))) \<longrightarrow> res' k = ?res1 k"
    by blast
  have a: "record_row oc dc i j (e # es) res = (None, res')"
    using first run by simp
  have b: "res' (oc ! i, dc ! (j + j')) = Some (elem_result ((e # es) ! j'))"
    if "j' < length (e # es)" for j'
  proof (cases j')
    case 0
    have "(oc ! i, dc ! j) \<noteq> (oc ! i, dc ! (Suc j + j''))" if "j'' < length es" for j''
    proof -
      from that j' have "Suc j + j'' < length dc" by simp
      with assms(4) j have "dc ! j \<noteq> dc ! (Suc j + j'')"
        by (simp add: nth_eq_iff_index_eq)
      then show ?thesis by simp
    qed
    with miss have "res' (oc ! i, dc ! j) = ?res1 (oc ! i, dc ! j)" by blast
    with 0 show ?thesis by simp
  next
    case (Suc j0)
    with that have "j0 < length es" by simp
    with hit have "res' (oc ! i, dc ! (Suc j + j0)) = Some (elem_result (es ! j0))" by blast
    with Suc show ?thesis by simp
  qed
  have c: "res' k = res k" if "\<forall>j' < length (e # es). k \<noteq> (oc ! i, dc ! (j + j'))" for k
  proof -
    from that have "k \<noteq> (oc ! i, dc ! (j + 0))" by blast
    then have 1: "?res1 k = res k" by simp
    have "k \<noteq> (oc ! i, dc ! (Suc j + j''))" if "j'' < length es" for j''
    proof -
      from that have "Suc j'' < length (e # es)" by simp
      with \<open>\<forall>j' < length (e # es). k \<noteq> (oc ! i, dc ! (j + j'))\<close>
      have "k \<noteq> (oc ! i, dc ! (j + Suc j''))" by blast
      then show ?thesis by simp
    qed
    with miss have "res' k = ?res1 k" by blast
    with 1 show ?thesis by simp
  qed
  from a b c show ?case by blast
qed

lemma record_row_frame:
  assumes "record_row oc dc i j es res = (m, res')" and "i < length oc \<longrightarrow> fst k \<noteq> oc ! i"
  shows "res' k = res k"
  using assms(1)
proof (induction es arbitrary: j res)
  case Nil
  then show ?case by simp
next
  case (Cons e es)
  show ?case
  proof (cases "record_elem oc dc i j e res")
    case (Inl msg)
    with Cons.prems show ?thesis by simp
  next
    case (Inr res1)
    from record_elem_Inr [OF Inr] have "i < length oc"
      and r1: "res1 = res((oc ! i, dc ! j) \<mapsto> elem_result e)"
      by simp_all
    with assms(2) have "k \<noteq> (oc ! i, dc ! j)" by auto
    then have "res1 k = res k" by (simp add: r1)
    moreover from Cons.prems Inr have "record_row oc dc i (Suc j) es res1 = (m, res')" by simp
    then have "res' k = res1 k" by (rule Cons.IH)
    ultimately show ?thesis by simp
  qed
qed

lemma record_rows_frame:
  assumes "record_rows oc dc i rows res = (m, res')"
      and "\<forall>i'. i \<le> i' \<and> i' < length oc \<longrightarrow> fst k \<noteq> oc ! i'"
  shows "res' k = res k"
  using assms
proof (induction rows arbitrary: i res)
  case Nil
  then show ?case by simp
next
  case (Cons row rows)
  obtain m1 res1 where r: "record_row oc dc i 0 row res = (m1, res1)"
    by (cases "record_row oc dc i 0 row res")
  from Cons.prems(2) have "i < length oc \<longrightarrow> fst k \<noteq> oc ! i" by simp
  from record_row_frame [OF r this] have 1: "res1 k = res k" .
  show ?case
  proof (cases m1)
    case None
    with Cons.prems(1) r have run: "record_rows oc dc (Suc i) rows res1 = (m, res')" by simp
    from Cons.prems(2) have "\<forall>i'. Suc i \<le> i' \<and> i' < length oc \<longrightarrow> fst k \<noteq> oc ! i'" by simp
    from Cons.IH [OF run this] 1 show ?thesis by simp
  next
    case (Some msg)
    with Cons.prems(1) r have "res' = res1" by simp
    with 1 show ?thesis by simp
  qed
qed

lemma record_rows_readable:
  assumes "i + length rows \<le> length oc"
      and "list_all (\<lambda>row. length row \<le> length dc \<and> list_all readable_elem row) rows"
      and "distinct oc" and "distinct dc"
  shows "\<exists>res'. record_rows oc dc i rows res = (None, res')
     \<and> (\<forall>i' < length rows. \<forall>j < length (rows ! i').
           res' (oc ! (i + i'), dc ! j) = Some (elem_result (rows ! i' ! j)))"
  using assms(1,2)
proof (induction rows arbitrary: i res)
  case Nil
  then show ?case by simp
next
  case (Cons row rows)
  from Cons.prems have i: "i < length oc" and row: "0 + length row \<le> length dc"
    and ok: "list_all readable_elem row" and i': "Suc i + length rows \<le> length oc"
    and rows: "list_all (\<lambda>row. length row \<le> length dc \<and> list_all readable_elem row) rows"
    by simp_all
  from record_row_readable [OF i row ok assms(4), of res] obtain res1 where
    r1: "record_row oc dc i 0 row res = (None, res1)" and
    hit1: "\<forall>j < length row. res1 (oc ! i, dc ! j) = Some (elem_result (row ! j))"
    by auto
  from Cons.IH [OF i' rows, of res1] obtain res' where
    run: "record_rows oc dc (Suc i) rows res1 = (None, res')" and
    hit: "\<forall>i' < length rows. \<forall>j < length (rows ! i').
           res' (oc ! (Suc i + i'), dc ! j) = Some (elem_result (rows ! i' ! j))"
    by blast
  have a: "record_rows oc dc i (row # rows) res = (None, res')"
    using r1 run by simp
  have b: "res' (oc ! (i + i0), dc ! j) = Some (elem_result ((row # rows) ! i0 ! j))"
    if "i0 < length (row # rows)" and "j < length ((row # rows) ! i0)" for i0 j
  proof (cases i0)
    case 0
    with that(2) have jr: "j < length row" by simp
    have "\<forall>i'. Suc i \<le> i' \<and> i' < length oc \<longrightarrow> fst (oc ! i, dc ! j) \<noteq> oc ! i'"
      using assms(3) i by (auto simp: nth_eq_iff_index_eq)
    from record_rows_frame [OF run this]
    have "res' (oc ! i, dc ! j) = res1 (oc ! i, dc ! j)" .
    with hit1 jr 0 show ?thesis by simp
  next
    case (Suc i1)
    with that have "i1 < length rows" "j < length (rows ! i1)" by simp_all
    with hit have "res' (oc ! (Suc i + i1), dc ! j) = Some (elem_result (rows ! i1 ! j))" by blast
    with Suc show ?thesis by simp
  qed
  from a b show ?case by blast
qed

lemma step_results_outside:
  assumes "k \<notin> set oc \<times> set dc"
  shows "step_results oc dc resp R k = R k"
proof (cases resp)
  case (RequestRaise msg)
  with assms show ?thesis by (simp add: step_results_def mark_failed_apply)
next
  case (Rows rows)
  obtain m R' where r: "record_rows oc dc 0 rows R = (m, R')"
    by (cases "record_rows oc dc 0 rows R")
  from record_rows_outside [OF r assms] have "R' k = R k" .
  with Rows r assms show ?thesis
    by (cases m) (simp_all add: step_results_def mark_failed_apply)
qed

lemma step_results_recorded:
  assumes "distinct oc" and "distinct dc"
  shows "recorded oc dc resp (step_results oc dc resp R)"
proof (cases resp)
  case (RequestRaise msg)
  then show ?thesis by (simp add: recorded_def step_results_def mark_failed_apply)
next
  case (Rows rows)
  show ?thesis
  proof (cases "readable oc dc rows")
    case False
    with Rows show ?thesis by (simp add: recorded_def)
  next
    case True
    then have "0 + length rows \<le> length oc"
      and "list_all (\<lambda>row. length row \<le> length dc \<and> list_all readable_elem row) rows"
      by (simp_all add: readable_def)
    from record_rows_readable [OF this assms, of R] obtain R' where
      "record_rows oc dc 0 rows R = (None, R')"
      "\<forall>i' < length rows. \<forall>j < length (rows ! i').
           R' (oc ! (0 + i'), dc ! j) = Some (elem_result (rows ! i' ! j))"
      by blast
    with Rows show ?thesis by (simp add: recorded_def step_results_def)
  qed
qed

lemma recorded_stable:
  assumes "recorded oc dc resp R" and "\<forall>k \<in> set oc \<times> set dc. R' k = R k"
  shows "recorded oc dc resp R'"
proof (cases resp)
  case (RequestRaise msg)
  with assms show ?thesis by (simp add: recorded_def)
next
  case (Rows rows)
  show ?thesis
    unfolding recorded_def Rows dm_response.case
  proof (intro impI allI)
    fix i j
    assume rd: "readable oc dc rows" and i: "i < length rows" and j: "j < length (rows ! i)"
    from rd i have io: "i < length oc" by (simp add: readable_def)
    from rd i have "length (rows ! i) \<le> length dc"
      by (simp add: readable_def list_all_length)
    with j have jd: "j < length dc" by simp
    from io jd have "(oc ! i, dc ! j) \<in> set oc \<times> set dc" by simp
    with assms(2) have "R' (oc ! i, dc ! j) = R (oc ! i, dc ! j)" by blast
    also from assms(1) rd i j have "\<dots> = Some (elem_result (rows ! i ! j))"
      by (simp add: recorded_def Rows)
    finally show "R' (oc ! i, dc ! j) = Some (elem_result (rows ! i ! j))" .
  qed
qed


lemma run_recorded:
  assumes "for_each (pair_step api key mode units tr d) ps st0 = Inr st"
  shows "length (exchanges st) = length (exchanges st0) + length ps
     \<and> (\<forall>n < length ps.
          distinct (fst (ps ! n)) \<longrightarrow> distinct (snd (ps ! n)) \<longrightarrow>
          (\<forall>m. n < m \<and> m < length ps \<longrightarrow> keys_of (ps ! n) \<inter> keys_of (ps ! m) = {}) \<longrightarrow>
          recorded (fst (ps ! n)) (snd (ps ! n))
            (snd (exchanges st ! (length (exchanges st0) + n))) (results st))"
  using assms
proof (induction ps arbitrary: st rule: rev_induct)
  case Nil
  then show ?case by simp
next
  case (snoc p ps)
  let ?len0 = "length (exchanges st0)"
  let ?params = "request_params key mode units tr (fst p) (snd p)"
  from snoc.prems obtain s1 where
    before: "for_each (pair_step api key mode units tr d) ps st0 = Inr s1" and
    last: "pair_step api key mode units tr d p s1 = Inr st"
    by (auto simp: for_each_snoc_Inr)
  from last have "chunk_pair_step api key mode units tr d (fst p) (snd p) s1 = Inr st"
    by (simp add: pair_step_def)
  from chunk_pair_step_Inr [OF this] have
    ex: "exchanges st = exchanges s1 @ [(?params, fst (api (dm_world s1) ?params))]" and
    res: "results st = step_results (fst p) (snd p) (fst (api (dm_world s1) ?params)) (results s1)"
    by simp_all
  note ih = snoc.IH [OF before]
  from ih have len1: "length (exchanges s1) = ?len0 + length ps" by blast
  have len: "length (exchanges st) = ?len0 + length (ps @ [p])"
    by (simp add: ex len1)
  have rec: "recorded (fst ((ps @ [p]) ! n)) (snd ((ps @ [p]) ! n))
            (snd (exchanges st ! (?len0 + n))) (results st)"
    if n: "n < length (ps @ [p])"
      and d1: "distinct (fst ((ps @ [p]) ! n))" and d2: "distinct (snd ((ps @ [p]) ! n))"
      and dis: "\<forall>m. n < m \<and> m < length (ps @ [p]) \<longrightarrow>
                 keys_of ((ps @ [p]) ! n) \<inter> keys_of ((ps @ [p]) ! m) = {}"
    for n
  proof (cases "n < length ps")
    case True
    then have nth: "(ps @ [p]) ! n = ps ! n" by (simp add: nth_append)
    have "\<forall>m. n < m \<and> m < length ps \<longrightarrow> keys_of (ps ! n) \<inter> keys_of (ps ! m) = {}"
    proof (intro allI impI)
      fix m
      assume m: "n < m \<and> m < length ps"
      then have "n < m \<and> m < length (ps @ [p])" by simp
      with dis have "keys_of ((ps @ [p]) ! n) \<inter> keys_of ((ps @ [p]) ! m) = {}" by blast
      with m True show "keys_of (ps ! n) \<inter> keys_of (ps ! m) = {}" by (simp add: nth_append)
    qed
    with ih True d1 d2 nth have r1: "recorded (fst (ps ! n)) (snd (ps ! n))
            (snd (exchanges s1 ! (?len0 + n))) (results s1)"
      by simp
    have same_ex: "exchanges st ! (?len0 + n) = exchanges s1 ! (?len0 + n)"
      using True len1 by (simp add: ex nth_append)
    from dis True have "keys_of (ps ! n) \<inter> keys_of p = {}"
      using nth by (metis length_append_singleton lessI nth_append_length)
    then have "\<forall>k \<in> set (fst (ps ! n)) \<times> set (snd (ps ! n)). results st k = results s1 k"
      unfolding res keys_of_def by (auto intro!: step_results_outside)
    from recorded_stable [OF r1 this] show ?thesis by (simp add: nth same_ex)
  next
    case False
    with n have n': "n = length ps" by simp
    then have nth: "(ps @ [p]) ! n = p" by simp
    have "exchanges st ! (?len0 + n) = (?params, fst (api (dm_world s1) ?params))"
      using len1 n' by (simp add: ex nth_append)
    moreover from d1 d2 nth have "recorded (fst p) (snd p) (fst (api (dm_world s1) ?params))
        (step_results (fst p) (snd p) (fst (api (dm_world s1) ?params)) (results s1))"
      by (simp add: step_results_recorded)
    ultimately show ?thesis by (simp add: nth res)
  qed
  from len rec show ?case by blast
qed

lemma run_recorded_nth:
  assumes "for_each (pair_step api key mode units tr d) ps st0 = Inr st"
      and "n < length ps"
      and "distinct (fst (ps ! n))" and "distinct (snd (ps ! n))"
      and "\<And>m. n < m \<Longrightarrow> m < length ps \<Longrightarrow> keys_of (ps ! n) \<inter> keys_of (ps ! m) = {}"
  shows "recorded (fst (ps ! n)) (snd (ps ! n))
            (snd (exchanges st ! (length (exchanges st0) + n))) (results st)"
  using run_recorded [OF assms(1)] assms(2-5) by blast

lemma chunks_distinct:
  assumes "distinct xs" and "0 < n"
  shows "distinct (chunks_from xs n 0)
     \<and> (\<forall>c \<in> set (chunks_from xs n 0). distinct c)
     \<and> (\<forall>c \<in> set (chunks_from xs n 0). \<forall>c' \<in> set (chunks_from xs n 0).
           c \<noteq> c' \<longrightarrow> set c \<inter> set c' = {})"
proof -
  let ?cs = "chunks_from xs n 0"
  have "concat ?cs = xs" using assms(2) by (simp add: chunks_from_concat)
  with assms(1) have d: "distinct (concat ?cs)" by simp
  have "[] \<notin> set ?cs" using chunks_from_bounds by blast
  then have "removeAll [] ?cs = ?cs" by simp
  with d show ?thesis by (simp add: distinct_concat_iff)
qed

lemma product_keys_disjoint:
  assumes "distinct ocs" and "distinct dcs"
      and "\<forall>c \<in> set ocs. \<forall>c' \<in> set ocs. c \<noteq> c' \<longrightarrow> set c \<inter> set c' = {}"
      and "\<forall>c \<in> set dcs. \<forall>c' \<in> set dcs. c \<noteq> c' \<longrightarrow> set c \<inter> set c' = {}"
      and "n < m" and "m < length (List.product ocs dcs)"
  shows "keys_of (List.product ocs dcs ! n) \<inter> keys_of (List.product ocs dcs ! m) = {}"
proof -
  let ?ps = "List.product ocs dcs"
  from assms(1,2) have "distinct ?ps" by (rule distinct_product)
  with assms(5,6) have ne: "?ps ! n \<noteq> ?ps ! m" by (simp add: nth_eq_iff_index_eq)
  from assms(5,6) have "n < length ?ps" by (rule less_trans)
  then have "?ps ! n \<in> set ?ps" by (rule nth_mem)
  moreover from assms(6) have "?ps ! m \<in> set ?ps" by (rule nth_mem)
  ultimately have mem: "fst (?ps ! n) \<in> set ocs" "snd (?ps ! n) \<in> set dcs"
    "fst (?ps ! m) \<in> set ocs" "snd (?ps ! m) \<in> set dcs"
    by (auto simp: mem_Times_iff)
  from ne have "fst (?ps ! n) \<noteq> fst (?ps ! m) \<or> snd (?ps ! n) \<noteq> snd (?ps ! m)"
    by (simp add: prod_eq_iff)
  then show ?thesis
  proof
    assume "fst (?ps ! n) \<noteq> fst (?ps ! m)"
    with assms(3) mem have "set (fst (?ps ! n)) \<inter> set (fst (?ps ! m)) = {}" by blast
    then show ?thesis unfolding keys_of_def by blast
  next
    assume "snd (?ps ! n) \<noteq> snd (?ps ! m)"
    with assms(4) mem have "set (snd (?ps ! n)) \<inter> set (snd (?ps ! m)) = {}" by blast
    then show ?thesis unfolding keys_of_def by blast
  qed
qed

text \<open>The two example runs.\<close>

lemma chunks_26:
  assumes "length xs = 26"
  shows "chunks_from xs 25 0 = [take 25 xs, drop 25 xs]"
proof -
  have "chunks_from xs 25 50 = []" using assms by (simp add: chunks_from_stop)
  moreover have "chunks_from xs 25 25 = take 25 (drop 25 xs) # chunks_from xs 25 (25 + 25)"
    using assms by (intro chunks_from_step) simp_all
  moreover have "chunks_from xs 25 0 = take 25 (drop 0 xs) # chunks_from xs 25 (0 + 25)"
    using assms by (intro chunks_from_step) simp_all
  ultimately show ?thesis using assms by simp
qed

lemma chunks_D: "chunks_from [''D''] 25 0 = [[''D'']]"
proof -
  have "chunks_from [''D''] 25 25 = []" by (simp add: chunks_from_stop)
  moreover have "chunks_from [''D''] 25 0 = take 25 (drop 0 [''D'']) # chunks_from [''D''] 25 (0 + 25)"
    by (intro chunks_from_step) simp_all
  ultimately show ?thesis by simp
qed

lemma record_single:
  "record_rows [x] [''D''] 0 [[ok_elem]] R = (None, R((x, ''D'') \<mapsto> elem_result ok_elem))"
  by (simp add: record_elem_def ok_elem_def)

lemma first_step:
  "chunk_pair_step flaky_api key mode units tr 0 ys [''D'']
     \<lparr>results = Map.empty, dm_world = 0, exchanges = []\<rparr> =
   Inr \<lparr>results = mark_failed ys [''D''] ''timeout'' Map.empty, dm_world = Suc 0,
        exchanges = [(request_params key mode units tr ys [''D''], RequestRaise ''timeout'')]\<rparr>"
  by (simp add: chunk_pair_step_def on_exception_def sleep_def flaky_api_def Let_def)

lemma second_step:
  "chunk_pair_step flaky_api key mode units tr 0 [x] [''D'']
     \<lparr>results = R, dm_world = Suc 0, exchanges = ex\<rparr> =
   Inr \<lparr>results = R((x, ''D'') \<mapsto> elem_result ok_elem), dm_world = Suc (Suc 0),
        exchanges = ex @ [(request_params key mode units tr [x] [''D''], Rows [[ok_elem]])]\<rparr>"
  by (simp add: chunk_pair_step_def sleep_def flaky_api_def Let_def record_elem_def ok_elem_def)

lemma two_steps:
  assumes "chunks_from xs 25 0 = [ys, [x]]"
  shows "distance_matrix_batch flaky_api xs [''D''] key mode units tr 0 0 =
     Inr \<lparr>results = (mark_failed ys [''D''] ''timeout'' Map.empty)
                       ((x, ''D'') \<mapsto> elem_result ok_elem),
          dm_world = Suc (Suc 0),
          exchanges =
            [(request_params key mode units tr ys [''D''], RequestRaise ''timeout''),
             (request_params key mode units tr [x] [''D''], Rows [[ok_elem]])]\<rparr>"
  by (simp add: distance_matrix_batch_unfold assms chunks_D pair_step_def first_step second_step)

lemma overwritten:
  "distance_matrix_batch flaky_api (replicate 26 ''A'') [''D''] ''k'' ''driving'' ''metric'' False 0 0
     = Inr overwritten_run"
proof -
  have "take 25 (replicate 26 ''A'') = replicate 25 ''A''" by simp
  moreover have "drop 25 (replicate 26 ''A'') = [''A'']" by (simp add: numeral_eq_Suc)
  ultimately have "chunks_from (replicate 26 ''A'') 25 0 = [replicate 25 ''A'', [''A'']]"
    by (simp add: chunks_26)
  from two_steps [OF this] show ?thesis by (simp add: overwritten_run_def)
qed

lemma isolated:
  "distance_matrix_batch flaky_api (map tally [0..<26]) [''D''] ''k'' ''driving'' ''metric'' False 0 0
     = Inr isolated_run"
proof -
  have "take 25 (map tally [0..<26]) = map tally [0..<25]"
    by (simp only: take_map take_upt) simp
  moreover have "drop 25 (map tally [0..<26]) = [tally 25]"
    by (simp only: drop_map drop_upt) (simp add: upt_rec)
  ultimately have "chunks_from (map tally [0..<26]) 25 0 = [map tally [0..<25], [tally 25]]"
    by (simp add: chunks_26)
  from two_steps [OF this] show ?thesis by (simp add: isolated_run_def)
qed


lemma chunk_lists_examples:
  "chunk_list (replicate 26 ''A'') max_origins = Inr [replicate 25 ''A'', [''A'']]"
  "chunk_list (map tally [0..<26]) max_origins = Inr [map tally [0..<25], [tally 25]]"
  "chunk_list [''D''] max_destinations = Inr [[''D'']]"
proof -
  have "take 25 (replicate 26 ''A'') = replicate 25 ''A''" by simp
  moreover have "drop 25 (replicate 26 ''A'') = [''A'']" by (simp add: numeral_eq_Suc)
  ultimately show "chunk_list (replicate 26 ''A'') max_origins = Inr [replicate 25 ''A'', [''A'']]"
    by (simp add: chunk_list_Inr max_origins_def chunks_26)
  have "take 25 (map tally [0..<26]) = map tally [0..<25]"
    by (simp only: take_map take_upt) simp
  moreover have "drop 25 (map tally [0..<26]) = [tally 25]"
    by (simp only: drop_map drop_upt) (simp add: upt_rec)
  ultimately show "chunk_list (map tally [0..<26]) max_origins = Inr [map tally [0..<25], [tally 25]]"
    by (simp add: chunk_list_Inr max_origins_def chunks_26)
  show "chunk_list [''D''] max_destinations = Inr [[''D'']]"
    by (simp add: chunk_list_Inr max_destinations_def chunks_D)
qed

text \<open>
  C4, as stated, fails when a token occurs in two chunks.  With 26 times the origin
  \<^verbatim>\<open>A\<close> and the destination \<^verbatim>\<open>D\<close> the pair \<^verbatim>\<open>(A, D)\<close> belongs to both chunk pairs.
  The first request times out, the second succeeds; the dict that is returned holds the
  second answer for \<^verbatim>\<open>(A, D)\<close>, not the error entry of the failed chunk pair.
\<close>

theorem overwritten_failure_counterexample:
  "distance_matrix_batch flaky_api (replicate 26 ''A'') [''D''] ''k'' ''driving'' ''metric'' False 0 0
     = Inr overwritten_run
   \<and> chunk_list (replicate 26 ''A'') max_origins = Inr [replicate 25 ''A'', [''A'']]
   \<and> chunk_list [''D''] max_destinations = Inr [[''D'']]
   \<and> snd (exchanges overwritten_run ! 0) = RequestRaise ''timeout''
   \<and> ''A'' \<in> set (replicate 25 ''A'') \<and> ''D'' \<in> set [''D'']
   \<and> results overwritten_run (''A'', ''D'') =
       Some \<lparr>distance_m = Some 5000, duration_s = Some 420, status = ''OK''\<rparr>
   \<and> results overwritten_run (''A'', ''D'') \<noteq>
       Some \<lparr>distance_m = None, duration_s = None, status = ''ERROR: timeout''\<rparr>"
proof -
  have r: "results overwritten_run (''A'', ''D'') =
       Some \<lparr>distance_m = Some 5000, duration_s = Some 420, status = ''OK''\<rparr>"
    by (simp add: overwritten_run_def elem_result_def ok_elem_def)
  have e: "snd (exchanges overwritten_run ! 0) = RequestRaise ''timeout''"
    by (simp add: overwritten_run_def)
  from r e show ?thesis by (simp add: overwritten chunk_lists_examples)
qed

lemma distinct_tally: "distinct (map tally [0..<26])"
  by (auto simp: distinct_map inj_on_def tally_def)

text \<open>
  C4, amended.  Let the origins be pairwise distinct and the destinations be pairwise
  distinct, and let the run return.  If the \<open>n\<close>-th request, the one of the \<open>n\<close>-th chunk
  pair, raised an exception with the text \<open>msg\<close>, the returned dict holds for every pair
  of that chunk pair no distance, no duration and the status \<^verbatim>\<open>ERROR: \<close>\<open>msg\<close>.  If it
  was answered with rows that can be read, the dict holds for every element of the
  answer, under the pair of tokens at the element's position, what the source records
  for that element: distance, duration and status for \<^verbatim>\<open>OK\<close>, otherwise the element's
  status alone.  What happened to the requests of the other chunk pairs plays no part.
\<close>

theorem failure_isolation:
  assumes "distance_matrix_batch api origins destinations key mode units use_traffic
             rate_limit_delay w = Inr st"
      and "distinct origins" and "distinct destinations"
      and "n < length (exchanges st)"
  shows "\<exists>o_chunks d_chunks o_chunk d_chunk.
       chunk_list origins max_origins = Inr o_chunks
     \<and> chunk_list destinations max_destinations = Inr d_chunks
     \<and> List.product o_chunks d_chunks ! n = (o_chunk, d_chunk)
     \<and> (\<forall>msg. snd (exchanges st ! n) = RequestRaise msg \<longrightarrow>
          (\<forall>origin \<in> set o_chunk. \<forall>dest \<in> set d_chunk.
             results st (origin, dest) =
               Some \<lparr>distance_m = None, duration_s = None, status = ''ERROR: '' @ msg\<rparr>))
     \<and> (\<forall>rows. snd (exchanges st ! n) = Rows rows \<and> readable o_chunk d_chunk rows \<longrightarrow>
          (\<forall>i < length rows. \<forall>j < length (rows ! i).
             results st (o_chunk ! i, d_chunk ! j) = Some (elem_result (rows ! i ! j))))"
proof -
  let ?ocs = "chunks_from origins 25 0" and ?dcs = "chunks_from destinations 25 0"
  let ?ps = "List.product ?ocs ?dcs"
  let ?st0 = "\<lparr>results = Map.empty, dm_world = w, exchanges = []\<rparr> :: 'a batch_state"
  from assms(1) have run: "for_each (pair_step api key mode units use_traffic rate_limit_delay)
      ?ps ?st0 = Inr st"
    by (simp only: distance_matrix_batch_unfold)
  note rr = run_recorded [OF run]
  from rr have "length (exchanges st) = length ?ps" by simp
  with assms(4) have n: "n < length ?ps" by simp
  obtain oc dc where p: "?ps ! n = (oc, dc)" by (cases "?ps ! n")
  note co = chunks_distinct [OF assms(2), of 25] and cd = chunks_distinct [OF assms(3), of 25]
  from n have "?ps ! n \<in> set ?ps" by (rule nth_mem)
  with p have "oc \<in> set ?ocs" "dc \<in> set ?dcs" by auto
  with co cd have doc: "distinct oc" and ddc: "distinct dc" by simp_all
  from co have o1: "distinct ?ocs"
    and o2: "\<forall>c \<in> set ?ocs. \<forall>c' \<in> set ?ocs. c \<noteq> c' \<longrightarrow> set c \<inter> set c' = {}"
    by simp_all
  from cd have d1: "distinct ?dcs"
    and d2: "\<forall>c \<in> set ?dcs. \<forall>c' \<in> set ?dcs. c \<noteq> c' \<longrightarrow> set c \<inter> set c' = {}"
    by simp_all
  from p have f: "fst (?ps ! n) = oc" "snd (?ps ! n) = dc" by simp_all
  have "recorded (fst (?ps ! n)) (snd (?ps ! n))
      (snd (exchanges st ! (length (exchanges ?st0) + n))) (results st)"
  proof (rule run_recorded_nth [OF run n])
    show "distinct (fst (?ps ! n))" using doc by (simp only: f)
    show "distinct (snd (?ps ! n))" using ddc by (simp only: f)
    fix m
    assume "n < m" and "m < length ?ps"
    with o1 d1 o2 d2 show "keys_of (?ps ! n) \<inter> keys_of (?ps ! m) = {}"
      by (rule product_keys_disjoint)
  qed
  then have rec: "recorded oc dc (snd (exchanges st ! n)) (results st)"
    by (simp add: f)
  have clo: "chunk_list origins max_origins = Inr ?ocs"
    and cld: "chunk_list destinations max_destinations = Inr ?dcs"
    by (simp_all add: chunk_list_Inr max_origins_def max_destinations_def)
  have e: "\<forall>msg. snd (exchanges st ! n) = RequestRaise msg \<longrightarrow>
          (\<forall>origin \<in> set oc. \<forall>dest \<in> set dc.
             results st (origin, dest) =
               Some \<lparr>distance_m = None, duration_s = None, status = ''ERROR: '' @ msg\<rparr>)"
    using rec by (auto simp: recorded_def error_result_def)
  have g: "\<forall>rows. snd (exchanges st ! n) = Rows rows \<and> readable oc dc rows \<longrightarrow>
          (\<forall>i < length rows. \<forall>j < length (rows ! i).
             results st (oc ! i, dc ! j) = Some (elem_result (rows ! i ! j)))"
    using rec by (auto simp: recorded_def)
  have "chunk_list origins max_origins = Inr ?ocs
     \<and> chunk_list destinations max_destinations = Inr ?dcs
     \<and> ?ps ! n = (oc, dc)
     \<and> (\<forall>msg. snd (exchanges st ! n) = RequestRaise msg \<longrightarrow>
          (\<forall>origin \<in> set oc. \<forall>dest \<in> set dc.
             results st (origin, dest) =
               Some \<lparr>distance_m = None, duration_s = None, status = ''ERROR: '' @ msg\<rparr>))
     \<and> (\<forall>rows. snd (exchanges st ! n) = Rows rows \<and> readable oc dc rows \<longrightarrow>
          (\<forall>i < length rows. \<forall>j < length (rows ! i).
             results st (oc ! i, dc ! j) = Some (elem_result (rows ! i ! j))))"
    using clo cld p e g by - (intro conjI; assumption)
  then show ?thesis by (intro exI)
qed


theorem failure_isolation_witness:
  "distance_matrix_batch flaky_api (map tally [0..<26]) [''D''] ''k'' ''driving'' ''metric'' False 0 0
     = Inr isolated_run
   \<and> distinct (map tally [0..<26]) \<and> distinct [''D'']
   \<and> snd (exchanges isolated_run ! 0) = RequestRaise ''timeout''
   \<and> snd (exchanges isolated_run ! 1) = Rows [[ok_elem]]
   \<and> results isolated_run (tally 0, ''D'') =
       Some \<lparr>distance_m = None, duration_s = None, status = ''ERROR: timeout''\<rparr>
   \<and> results isolated_run (tally 25, ''D'') = Some (elem_result ok_elem)"
proof -
  have d: "distinct [''D'']" by simp
  have e0: "snd (exchanges isolated_run ! 0) = RequestRaise ''timeout''"
    and e1: "snd (exchanges isolated_run ! 1) = Rows [[ok_elem]]"
    and n0: "0 < length (exchanges isolated_run)" and n1: "1 < length (exchanges isolated_run)"
    by (simp_all add: isolated_run_def)
  have rd: "readable [tally 25] [''D''] [[ok_elem]]"
    by (simp add: readable_def readable_elem_def ok_elem_def)
  have m: "tally 0 \<in> set (map tally [0..<25])" by simp
  from failure_isolation [OF isolated distinct_tally d n0] e0 m
  have a: "results isolated_run (tally 0, ''D'') =
       Some \<lparr>distance_m = None, duration_s = None, status = ''ERROR: timeout''\<rparr>"
    by (auto simp: chunk_lists_examples)
  from failure_isolation [OF isolated distinct_tally d n1] e1 rd
  have b: "results isolated_run (tally 25, ''D'') = Some (elem_result ok_elem)"
    by (auto simp: chunk_lists_examples)
  from a b e0 e1 d show ?thesis by (simp add: isolated distinct_tally)
qed

end
